(* ===== verification/Rust_Str.thy ===== *)
theory Rust_Str
  imports Prelude
begin

text \<open>
  Rust's \<open>str\<close> and the parts of \<open>std\<close> the sources use on it.

  A Rust string is modelled by its UTF-8 bytes: a HOL \<open>string\<close>, whose \<open>char\<close>s are the
  256 byte values. Lengths, equality, \<open>Ord\<close>, and searches for ASCII characters are then
  Rust's own, byte for byte. A Rust \<open>char\<close> (a Unicode scalar value) is the byte group
  that encodes it, so \<open>chars\<close> splits a string into groups and \<open>is_whitespace\<close> is the
  \<open>White_Space\<close> property on those groups. \<open>valid_utf8\<close> is the well-formedness test of
  \<open>std::str::from_utf8\<close>.
\<close>

type_synonym uchar = string

abbreviation code :: "char \<Rightarrow> nat" where
  "code c \<equiv> of_char c"

subsection \<open>UTF-8\<close>

definition utf8_len :: "char \<Rightarrow> nat" where
  "utf8_len b = (if code b < 128 then 1 else if code b < 224 then 2
                 else if code b < 240 then 3 else 4)"

function chars :: "string \<Rightarrow> uchar list" where
  "chars [] = []"
| "chars (b # bs) = (b # take (utf8_len b - 1) bs) # chars (drop (utf8_len b - 1) bs)"
  by pat_completeness auto
termination
  by (relation "measure length") auto

text \<open>The well-formed byte sequences of one scalar value (no overlong forms, no surrogates).\<close>

definition cont_byte :: "nat \<Rightarrow> bool" where
  "cont_byte n \<longleftrightarrow> 128 \<le> n \<and> n \<le> 191"

fun wf_codes :: "nat list \<Rightarrow> bool" where
  "wf_codes [a] = (a < 128)"
| "wf_codes [a, b] = (194 \<le> a \<and> a \<le> 223 \<and> cont_byte b)"
| "wf_codes [a, b, c] =
     (cont_byte b \<and> cont_byte c \<and> 224 \<le> a \<and> a \<le> 239 \<and>
      (a = 224 \<longrightarrow> 160 \<le> b) \<and> (a = 237 \<longrightarrow> b \<le> 159))"
| "wf_codes [a, b, c, d] =
     (cont_byte b \<and> cont_byte c \<and> cont_byte d \<and> 240 \<le> a \<and> a \<le> 244 \<and>
      (a = 240 \<longrightarrow> 144 \<le> b) \<and> (a = 244 \<longrightarrow> b \<le> 143))"
| "wf_codes _ = False"

definition wf_uchar :: "uchar \<Rightarrow> bool" where
  "wf_uchar u = wf_codes (map code u)"

definition valid_utf8 :: "string \<Rightarrow> bool" where
  "valid_utf8 s = list_all wf_uchar (chars s)"

text \<open>\<open>std::str::from_utf8\<close>.\<close>

definition from_utf8 :: "string \<Rightarrow> string option" where
  "from_utf8 raw = (if valid_utf8 raw then Some raw else None)"

lemma concat_chars [simp]: "concat (chars s) = s"
  by (induction s rule: chars.induct) simp_all

lemma chars_eq_Nil [simp]: "chars s = [] \<longleftrightarrow> s = []"
  by (cases s) simp_all

lemma Nil_notin_chars [simp]: "[] \<notin> set (chars s)"
  by (induction s rule: chars.induct) simp_all

lemma wf_uchar_Nil [simp]: "\<not> wf_uchar []"
  by (simp add: wf_uchar_def)

lemma wf_codes_length: "wf_codes (a # as) \<Longrightarrow>
    Suc (length as) = (if a < 128 then 1 else if a < 224 then 2 else if a < 240 then 3 else 4)"
  by (induction "a # as" rule: wf_codes.induct) auto

lemma wf_uchar_length: "wf_uchar (b # bs) \<Longrightarrow> length bs = utf8_len b - 1"
  by (auto simp: wf_uchar_def utf8_len_def dest!: wf_codes_length split: if_splits)

lemma chars_append_wf [lexeme]: "wf_uchar u \<Longrightarrow> chars (u @ s) = u # chars s"
  by (cases u) (auto dest: wf_uchar_length)

lemma chars_concat [lexeme]: "list_all wf_uchar us \<Longrightarrow> chars (concat us) = us"
  by (induction us) (simp_all add: chars_append_wf)

lemma valid_concat [simp]: "list_all wf_uchar us \<Longrightarrow> valid_utf8 (concat us)"
  by (simp add: valid_utf8_def chars_concat)

subsection \<open>Character classes\<close>

definition is_ascii :: "char \<Rightarrow> bool" where
  "is_ascii c \<longleftrightarrow> code c < 128"

definition is_ascii_digit :: "char \<Rightarrow> bool" where
  "is_ascii_digit c \<longleftrightarrow> 48 \<le> code c \<and> code c \<le> 57"

definition is_ascii_lowercase :: "char \<Rightarrow> bool" where
  "is_ascii_lowercase c \<longleftrightarrow> 97 \<le> code c \<and> code c \<le> 122"

definition is_ascii_uppercase :: "char \<Rightarrow> bool" where
  "is_ascii_uppercase c \<longleftrightarrow> 65 \<le> code c \<and> code c \<le> 90"

definition is_ascii_alphabetic :: "char \<Rightarrow> bool" where
  "is_ascii_alphabetic c \<longleftrightarrow> is_ascii_lowercase c \<or> is_ascii_uppercase c"

text \<open>A class of ASCII characters, on a \<open>char\<close>.\<close>

definition byte_char :: "(char \<Rightarrow> bool) \<Rightarrow> uchar \<Rightarrow> bool" where
  "byte_char P u = (case u of [b] \<Rightarrow> P b | _ \<Rightarrow> False)"

lemmas ascii_class_defs =
  is_ascii_def is_ascii_digit_def is_ascii_lowercase_def is_ascii_uppercase_def
  is_ascii_alphabetic_def

lemma wf_uchar_ascii [simp]: "wf_uchar [c] \<longleftrightarrow> is_ascii c"
  by (simp add: wf_uchar_def is_ascii_def)

text \<open>\<open>char::is_whitespace\<close>: U+0009-000D, 0020, 0085, 00A0, 1680, 2000-200A, 2028, 2029,
  202F, 205F and 3000, by their UTF-8 encodings.\<close>

fun ws_codes :: "nat list \<Rightarrow> bool" where
  "ws_codes [a] = (9 \<le> a \<and> a \<le> 13 \<or> a = 32)"
| "ws_codes [a, b] = (a = 194 \<and> (b = 133 \<or> b = 160))"
| "ws_codes [a, b, c] =
     (a = 225 \<and> b = 154 \<and> c = 128 \<or>
      a = 226 \<and> b = 128 \<and> (128 \<le> c \<and> c \<le> 138 \<or> c = 168 \<or> c = 169 \<or> c = 175) \<or>
      a = 226 \<and> b = 129 \<and> c = 159 \<or>
      a = 227 \<and> b = 128 \<and> c = 128)"
| "ws_codes _ = False"

definition is_whitespace :: "uchar \<Rightarrow> bool" where
  "is_whitespace u = ws_codes (map code u)"

lemma is_whitespace_ascii: "is_whitespace [c] \<longleftrightarrow> 9 \<le> code c \<and> code c \<le> 13 \<or> code c = 32"
  by (simp add: is_whitespace_def)

lemma space_is_whitespace [simp]: "is_whitespace '' ''"
  by (simp add: is_whitespace_def)

text \<open>\<open>str::to_ascii_lowercase\<close>, \<open>to_ascii_uppercase\<close>, \<open>eq_ignore_ascii_case\<close>.\<close>

definition lower_byte :: "char \<Rightarrow> char" where
  "lower_byte c = (if is_ascii_uppercase c then char_of (code c + 32) else c)"

definition upper_byte :: "char \<Rightarrow> char" where
  "upper_byte c = (if is_ascii_lowercase c then char_of (code c - 32) else c)"

definition to_ascii_lowercase :: "string \<Rightarrow> string" where
  "to_ascii_lowercase s = map lower_byte s"

definition to_ascii_uppercase :: "string \<Rightarrow> string" where
  "to_ascii_uppercase s = map upper_byte s"

definition eq_ignore_ascii_case :: "string \<Rightarrow> string \<Rightarrow> bool" where
  "eq_ignore_ascii_case s t \<longleftrightarrow> to_ascii_lowercase s = to_ascii_lowercase t"

lemma code_lower_byte: "code (lower_byte c) = (if is_ascii_uppercase c then code c + 32 else code c)"
  by (auto simp: lower_byte_def is_ascii_uppercase_def)

lemma lower_byte_idem [simp]: "lower_byte (lower_byte c) = lower_byte c"
  by (auto simp: lower_byte_def is_ascii_uppercase_def)

lemma to_ascii_lowercase_idem [simp]:
  "to_ascii_lowercase (to_ascii_lowercase s) = to_ascii_lowercase s"
  by (simp add: to_ascii_lowercase_def)

subsection \<open>Trimming, splitting, replacing\<close>

definition trim_start :: "string \<Rightarrow> string" where
  "trim_start s = concat (dropWhile is_whitespace (chars s))"

definition trim_end :: "string \<Rightarrow> string" where
  "trim_end s = concat (rev (dropWhile is_whitespace (rev (chars s))))"

definition trim :: "string \<Rightarrow> string" where
  "trim s = trim_end (trim_start s)"

text \<open>\<open>strip_suffix\<close> of one ASCII character and \<open>strip_prefix\<close> of a string.\<close>

definition strip_suffix :: "char \<Rightarrow> string \<Rightarrow> string option" where
  "strip_suffix c s = (if s \<noteq> [] \<and> last s = c then Some (butlast s) else None)"

fun strip_prefix :: "string \<Rightarrow> string \<Rightarrow> string option" where
  "strip_prefix [] s = Some s"
| "strip_prefix (c # cs) [] = None"
| "strip_prefix (c # cs) (d # ds) = (if c = d then strip_prefix cs ds else None)"

lemma strip_prefix_Some [simp]: "strip_prefix p s = Some t \<longleftrightarrow> s = p @ t"
  by (induction p s rule: strip_prefix.induct) auto

definition starts_with :: "string \<Rightarrow> string \<Rightarrow> bool" where
  "starts_with p s \<longleftrightarrow> strip_prefix p s \<noteq> None"

lemma starts_with_iff: "starts_with p s \<longleftrightarrow> (\<exists>t. s = p @ t)"
  by (auto simp: starts_with_def)

text \<open>\<open>str::split\<close> on one ASCII character: always at least one piece.\<close>

fun split_char :: "char \<Rightarrow> string \<Rightarrow> string list" where
  "split_char c [] = [[]]"
| "split_char c (d # ds) =
     (if d = c then [] # split_char c ds
      else (case split_char c ds of [] \<Rightarrow> [[d]] | p # ps \<Rightarrow> (d # p) # ps))"

text \<open>\<open>str::replace\<close> of one ASCII character by a string.\<close>

definition replace_char :: "char \<Rightarrow> string \<Rightarrow> string \<Rightarrow> string" where
  "replace_char c r s = concat (map (\<lambda>d. if d = c then r else [d]) s)"

lemma replace_char_simps [simp]:
  "replace_char c r [] = []"
  "replace_char c r (d # s) = (if d = c then r else [d]) @ replace_char c r s"
  by (simp_all add: replace_char_def)

text \<open>\<open>[String]::join\<close>.\<close>

fun join :: "string \<Rightarrow> string list \<Rightarrow> string" where
  "join sep [] = []"
| "join sep [s] = s"
| "join sep (s # t # ts) = s @ sep @ join sep (t # ts)"

lemma split_char_nonempty [simp]: "split_char c s \<noteq> []"
  by (induction s) (auto split: list.splits)

lemma join_Cons: "ts \<noteq> [] \<Longrightarrow> join sep (s # ts) = s @ sep @ join sep ts"
  by (cases ts) simp_all

lemma join_split_char [simp]: "join [c] (split_char c s) = s"
proof (induction s)
  case Nil
  then show ?case by simp
next
  case (Cons d ds)
  then show ?case
    by (cases "split_char c ds"; cases "tl (split_char c ds)") (auto simp: join_Cons)
qed

lemma split_char_no_sep: "p \<in> set (split_char c s) \<Longrightarrow> c \<notin> set p"
  by (induction s arbitrary: p) (force split: list.splits if_splits)+

subsection \<open>Decimal numbers\<close>

text \<open>
  \<open>to_string\<close> of the integer types, and their \<open>FromStr\<close>: an optional sign (a minus only
  for the signed types), at least one ASCII digit and nothing else, \<open>None\<close> when the value
  does not fit the type's range.
\<close>

definition digit_char :: "nat \<Rightarrow> char" where
  "digit_char d = char_of (48 + d)"

fun show_nat :: "nat \<Rightarrow> string" where
  "show_nat n = (if n < 10 then [digit_char n] else show_nat (n div 10) @ [digit_char (n mod 10)])"

declare show_nat.simps [simp del]

definition show_int :: "int \<Rightarrow> string" where
  "show_int i = (if i < 0 then CHR ''-'' # show_nat (nat (- i)) else show_nat (nat i))"

fun digits_val :: "nat \<Rightarrow> string \<Rightarrow> nat option" where
  "digits_val acc [] = Some acc"
| "digits_val acc (c # cs) =
     (if is_ascii_digit c then digits_val (10 * acc + (code c - 48)) cs else None)"

definition parse_digits :: "string \<Rightarrow> nat option" where
  "parse_digits s = (if s = [] then None else digits_val 0 s)"

definition parse_uint :: "nat \<Rightarrow> string \<Rightarrow> nat option" where
  "parse_uint hi s =
     (let ds = (case s of [] \<Rightarrow> [] | c # cs \<Rightarrow> if c = CHR ''+'' then cs else s)
      in case parse_digits ds of None \<Rightarrow> None | Some n \<Rightarrow> if n \<le> hi then Some n else None)"

definition parse_sint :: "nat \<Rightarrow> string \<Rightarrow> int option" where
  "parse_sint w s =
     (let (neg, ds) = (case s of [] \<Rightarrow> (False, [])
                       | c # cs \<Rightarrow> if c = CHR ''-'' then (True, cs)
                                   else if c = CHR ''+'' then (False, cs) else (False, s))
      in case parse_digits ds of None \<Rightarrow> None
         | Some n \<Rightarrow> (let i = (if neg then - int n else int n)
                      in if - (2 ^ (w - 1)) \<le> i \<and> i < 2 ^ (w - 1) then Some i else None))"

abbreviation parse_u64 :: "string \<Rightarrow> nat option" where
  "parse_u64 \<equiv> parse_uint (2 ^ 64 - 1)"

lemma code_digit_char [simp]: "d < 10 \<Longrightarrow> code (digit_char d) = 48 + d"
  by (simp add: digit_char_def)

lemma is_digit_digit_char [simp]: "d < 10 \<Longrightarrow> is_ascii_digit (digit_char d)"
  by (simp add: is_ascii_digit_def)

lemma show_nat_nonempty [simp]: "show_nat n \<noteq> []"
  by (subst show_nat.simps) simp

lemma show_nat_digits: "c \<in> set (show_nat n) \<Longrightarrow> is_ascii_digit c"
proof (induction n rule: show_nat.induct)
  case (1 n)
  then show ?case by (subst (asm) show_nat.simps) (auto split: if_splits)
qed

lemma digits_val_append:
  "digits_val acc (s @ t) =
     (case digits_val acc s of None \<Rightarrow> None | Some n \<Rightarrow> digits_val n t)"
  by (induction s arbitrary: acc) auto

lemma digits_val_show_nat: "digits_val 0 (show_nat n) = Some n"
proof (induction n rule: show_nat.induct)
  case (1 n)
  show ?case
  proof (cases "n < 10")
    case True
    then show ?thesis by (subst show_nat.simps) simp
  next
    case False
    with 1 show ?thesis by (subst show_nat.simps) (simp add: digits_val_append)
  qed
qed

lemma show_nat_hd: "show_nat n = c # cs \<Longrightarrow> is_ascii_digit c"
  using show_nat_digits [of c n] by simp

lemma parse_uint_show_nat [simp]: "n \<le> hi \<Longrightarrow> parse_uint hi (show_nat n) = Some n"
proof -
  assume n: "n \<le> hi"
  obtain c cs where s: "show_nat n = c # cs" by (cases "show_nat n") auto
  have "c \<noteq> CHR ''+''" using show_nat_hd [OF s] by (auto simp: is_ascii_digit_def)
  then show ?thesis
    using n digits_val_show_nat [of n] by (simp add: parse_uint_def parse_digits_def s)
qed

lemma show_nat_inject [simp]: "show_nat m = show_nat n \<longleftrightarrow> m = n"
  by (metis digits_val_show_nat option.inject)

lemma parse_uint_le: "parse_uint hi s = Some n \<Longrightarrow> n \<le> hi"
  by (auto simp: parse_uint_def Let_def split: option.splits if_splits)

lemma parse_sint_bounds:
  "parse_sint w s = Some i \<Longrightarrow> - (2 ^ (w - 1)) \<le> i \<and> i < 2 ^ (w - 1)"
  by (auto simp: parse_sint_def Let_def split: option.splits if_splits prod.splits)

lemma digits_val_digits: "digits_val acc s = Some n \<Longrightarrow> list_all is_ascii_digit s"
  by (induction s arbitrary: acc) (auto split: if_splits)

text \<open>Parsing what \<open>to_string\<close> printed succeeds exactly when the number fits.\<close>

lemma parse_sint_show_int:
  "parse_sint w (show_int i) = (if - (2 ^ (w - 1)) \<le> i \<and> i < 2 ^ (w - 1) then Some i else None)"
proof (cases "i < 0")
  case True
  then show ?thesis
    by (simp add: show_int_def parse_sint_def parse_digits_def digits_val_show_nat)
next
  case False
  obtain c cs where s: "show_nat (nat i) = c # cs" by (cases "show_nat (nat i)") auto
  have "c \<noteq> CHR ''-''" "c \<noteq> CHR ''+''"
    using show_nat_hd [OF s] by (auto simp: is_ascii_digit_def)
  with False s digits_val_show_nat [of "nat i"] show ?thesis
    by (auto simp: show_int_def parse_sint_def parse_digits_def)
qed

subsection \<open>ASCII strings\<close>

lemma chars_ascii: "list_all is_ascii s \<Longrightarrow> chars s = map (\<lambda>c. [c]) s"
  by (induction s) (auto simp: utf8_len_def is_ascii_def)

lemma valid_ascii: "list_all is_ascii s \<Longrightarrow> valid_utf8 s"
  by (simp add: valid_utf8_def chars_ascii list_all_iff)

definition is_visible :: "char \<Rightarrow> bool" where
  "is_visible c \<longleftrightarrow> 33 \<le> code c \<and> code c < 128"

lemma dropWhile_no_drop: "(\<And>x. x \<in> set xs \<Longrightarrow> \<not> P x) \<Longrightarrow> dropWhile P xs = xs"
  by (cases xs) auto

lemma trim_visible:
  assumes "list_all is_visible s"
  shows "trim s = s" and "valid_utf8 s"
proof -
  have ascii: "list_all is_ascii s"
    using assms by (auto simp: list_all_iff is_visible_def is_ascii_def)
  have "\<not> is_whitespace u" if "u \<in> set (chars s)" for u
    using that assms by (auto simp: chars_ascii [OF ascii] list_all_iff is_visible_def is_whitespace_ascii)
  then have "dropWhile is_whitespace (chars s) = chars s"
    and "dropWhile is_whitespace (rev (chars s)) = rev (chars s)"
    by (auto intro: dropWhile_no_drop)
  then show "trim s = s" by (simp add: trim_def trim_start_def trim_end_def)
  show "valid_utf8 s" using ascii by (rule valid_ascii)
qed

lemma show_int_visible: "list_all is_visible (show_int i)"
  using show_nat_digits
  by (fastforce simp: show_int_def list_all_iff is_visible_def is_ascii_digit_def)

end
