(* ===== verification/Query_Key.thy ===== *)
theory Query_Key
  imports Rust_Str
begin

text \<open>
  \<open>src/cache_layer.rs\<close>, the cache keys: \<open>normalize_query\<close> and its lexical fallback.

  The canonical \<open>Display\<close> forms that sqlparser gives a parsable text are a parameter
  \<open>parse_sql\<close> (\<open>None\<close> when the text does not parse). The lexical fallback is compared with
  \<open>sql_words\<close>, the splitting of a text at its unquoted whitespace.
\<close>

subsection \<open>Normalizing query text\<close>

datatype quote_state = QNone | QSingle | QDouble

text \<open>The loop of \<open>normalize_lexical\<close>: the three mutable variables, then the characters.\<close>

fun normalize_loop :: "quote_state \<Rightarrow> bool \<Rightarrow> string \<Rightarrow> uchar list \<Rightarrow> string" where
  "normalize_loop st pending out [] = out"
| "normalize_loop QNone pending out (ch # rest) =
     (if is_whitespace ch then normalize_loop QNone True out rest
      else let out = (if pending \<and> out \<noteq> [] then out @ '' '' else out);
               st = (if ch = [CHR 39] then QSingle else if ch = [CHR 34] then QDouble else QNone)
           in normalize_loop st False (out @ ch) rest)"
| "normalize_loop QSingle pending out (ch # rest) =
     normalize_loop (if ch = [CHR 39] then QNone else QSingle) pending (out @ ch) rest"
| "normalize_loop QDouble pending out (ch # rest) =
     normalize_loop (if ch = [CHR 34] then QNone else QDouble) pending (out @ ch) rest"

definition lexical_trim :: "string \<Rightarrow> string" where
  "lexical_trim sql =
     (let trimmed = trim sql
      in case strip_suffix (CHR '';'') trimmed of None \<Rightarrow> trimmed | Some t \<Rightarrow> trim_end t)"

definition normalize_lexical :: "string \<Rightarrow> string" where
  "normalize_lexical sql = normalize_loop QNone False [] (chars (lexical_trim sql))"

definition normalize_query :: "(string \<Rightarrow> string list option) \<Rightarrow> string \<Rightarrow> string" where
  "normalize_query parse_sql sql =
     (case parse_sql sql of
        Some statements \<Rightarrow> if statements \<noteq> [] then join ''; '' statements else normalize_lexical sql
      | None \<Rightarrow> normalize_lexical sql)"

subsection \<open>The reference: words between unquoted whitespace\<close>

definition next_quote :: "quote_state \<Rightarrow> uchar \<Rightarrow> quote_state" where
  "next_quote st ch =
     (case st of
        QNone \<Rightarrow> if ch = [CHR 39] then QSingle else if ch = [CHR 34] then QDouble else QNone
      | QSingle \<Rightarrow> if ch = [CHR 39] then QNone else QSingle
      | QDouble \<Rightarrow> if ch = [CHR 34] then QNone else QDouble)"

fun words_from :: "quote_state \<Rightarrow> uchar list \<Rightarrow> uchar list \<Rightarrow> uchar list list" where
  "words_from st cur [] = (if cur = [] then [] else [cur])"
| "words_from st cur (ch # rest) =
     (if st = QNone \<and> is_whitespace ch
      then (if cur = [] then words_from QNone [] rest else cur # words_from QNone [] rest)
      else words_from (next_quote st ch) (cur @ [ch]) rest)"

definition sql_words :: "string \<Rightarrow> uchar list list" where
  "sql_words sql = words_from QNone [] (chars (lexical_trim sql))"

definition spaced :: "uchar list list \<Rightarrow> uchar list" where
  "spaced ws = concat (map (\<lambda>w. '' '' # w) ws)"

lemma spaced_simps [simp]: "spaced [] = []" "spaced (w # ws) = '' '' # w @ spaced ws"
  by (simp_all add: spaced_def)

lemma words_from_prefix:
  "cur \<noteq> [] \<Longrightarrow> \<exists>x ws. words_from st cur cs = (cur @ x) # ws"
proof (induction cs arbitrary: st cur)
  case Nil
  then show ?case by simp
next
  case (Cons ch rest)
  obtain x ws where "words_from (next_quote st ch) (cur @ [ch]) rest = ((cur @ [ch]) @ x) # ws"
    using Cons.IH [of "cur @ [ch]" "next_quote st ch"] by auto
  with Cons.prems show ?case by auto
qed

lemma join_spaced:
  "join '' '' (map concat (w # ws)) = concat (w @ spaced ws)"
  by (induction ws arbitrary: w) (simp_all add: join_Cons)

lemma normalize_loop_step:
  "normalize_loop st pending out (ch # rest) =
     (if st = QNone \<and> is_whitespace ch then normalize_loop QNone True out rest
      else normalize_loop (next_quote st ch) (if st = QNone then False else pending)
             ((if st = QNone \<and> pending \<and> out \<noteq> [] then out @ '' '' else out) @ ch) rest)"
  by (cases st) (simp_all add: next_quote_def)

text \<open>Inside a word, and between two words.\<close>

lemma normalize_loop_words_aux:
  assumes "[] \<notin> set cs"
  shows "cur \<noteq> [] \<Longrightarrow> [] \<notin> set cur \<Longrightarrow> words_from st cur cs = w # ws \<Longrightarrow>
           normalize_loop st False (pre @ concat cur) cs = pre @ concat (w @ spaced ws)"
    and "out \<noteq> [] \<Longrightarrow>
           normalize_loop QNone True out cs = out @ concat (spaced (words_from QNone [] cs))"
  using assms
proof (induction cs arbitrary: st cur pre out w ws)
  case Nil
  {
    case 1
    then show ?case by simp
  next
    case 2
    then show ?case by simp
  }
next
  case (Cons ch rest)
  {
    case 1
    show ?case
    proof (cases "st = QNone \<and> is_whitespace ch")
      case True
      have "pre @ concat cur \<noteq> []" using 1 by (cases cur) auto
      with 1 True show ?thesis
        by (simp add: normalize_loop_step Cons.IH(2) del: normalize_loop.simps)
    next
      case False
      with 1 have "normalize_loop (next_quote st ch) False (pre @ concat (cur @ [ch])) rest =
          pre @ concat (w @ spaced ws)"
        by (intro Cons.IH(1)) (simp_all split: if_splits)
      moreover have "normalize_loop st False (pre @ concat cur) (ch # rest) =
          normalize_loop (next_quote st ch) False (pre @ concat (cur @ [ch])) rest"
        using False by (auto simp: normalize_loop_step simp del: normalize_loop.simps)
      ultimately show ?thesis by simp
    qed
  next
    case 2
    show ?case
    proof (cases "is_whitespace ch")
      case True
      with 2 show ?thesis
        by (simp add: normalize_loop_step Cons.IH(2) del: normalize_loop.simps)
    next
      case False
      obtain x ws' where w: "words_from (next_quote QNone ch) [ch] rest = (ch # x) # ws'"
        using words_from_prefix [of "[ch]" "next_quote QNone ch" rest] by auto
      with 2 have "normalize_loop (next_quote QNone ch) False ((out @ '' '') @ concat [ch]) rest =
          (out @ '' '') @ concat ((ch # x) @ spaced ws')"
        by (intro Cons.IH(1)) simp_all
      with False w 2 show ?thesis by (simp add: normalize_loop_step del: normalize_loop.simps)
    qed
  }
qed

lemma normalize_loop_words:
  "[] \<notin> set cs \<Longrightarrow>
   normalize_loop QNone pending [] cs = join '' '' (map concat (words_from QNone [] cs))"
proof (induction cs arbitrary: pending)
  case Nil
  then show ?case by simp
next
  case (Cons ch rest)
  show ?case
  proof (cases "is_whitespace ch")
    case True
    with Cons show ?thesis by (simp add: normalize_loop_step del: normalize_loop.simps)
  next
    case False
    obtain x ws where w: "words_from (next_quote QNone ch) [ch] rest = (ch # x) # ws"
      using words_from_prefix [of "[ch]" "next_quote QNone ch" rest] by auto
    with Cons.prems False normalize_loop_words_aux(1) [of rest "[ch]" _ "ch # x" ws "[]"]
    show ?thesis
      by (simp add: normalize_loop_step join_spaced del: normalize_loop.simps list.map)
  qed
qed

subsection \<open>Keys determine the words, and are stable\<close>

lemma words_from_spaced:
  shows "cur \<noteq> [] \<Longrightarrow> words_from st cur cs = (cur @ x) # ws \<Longrightarrow>
           words_from st cur (x @ spaced ws) = (cur @ x) # ws"
    and "words_from QNone [] cs = ws \<Longrightarrow> words_from QNone [] (spaced ws) = ws"
proof (induction cs arbitrary: st cur x ws)
  case Nil
  {
    case 1
    then show ?case by simp
  next
    case 2
    then show ?case by auto
  }
next
  case (Cons ch rest)
  {
    case 1
    show ?case
    proof (cases "st = QNone \<and> is_whitespace ch")
      case True
      with 1 have x: "x = []" and ws: "words_from QNone [] rest = ws" by auto
      from Cons.IH(2) [OF ws] have "words_from QNone [] (spaced ws) = ws" .
      with x 1 True show ?thesis by (cases ws) simp_all
    next
      case False
      then have eq: "words_from st cur (ch # rest) = words_from (next_quote st ch) (cur @ [ch]) rest"
        by auto
      obtain x' ws' where w: "words_from (next_quote st ch) (cur @ [ch]) rest = ((cur @ [ch]) @ x') # ws'"
        using words_from_prefix [of "cur @ [ch]"] by blast
      with eq 1 have x: "x = ch # x'" "ws = ws'" by auto
      from Cons.IH(1) [OF _ w] have "words_from (next_quote st ch) (cur @ [ch]) (x' @ spaced ws') =
          ((cur @ [ch]) @ x') # ws'" by simp
      with x False show ?thesis by auto
    qed
  next
    case 2
    show ?case
    proof (cases "is_whitespace ch")
      case True
      with 2 Cons.IH(2) show ?thesis by simp
    next
      case False
      obtain x' ws' where w: "words_from (next_quote QNone ch) [ch] rest = ([ch] @ x') # ws'"
        using words_from_prefix [of "[ch]"] by blast
      from w False 2 have ws: "ws = (ch # x') # ws'" by simp
      from Cons.IH(1) [OF _ w] False show ?thesis by (simp add: ws)
    qed
  }
qed

lemma words_from_respaced:
  assumes "words_from QNone [] cs = w # ws"
  shows "words_from QNone [] (w @ spaced ws) = w # ws"
  using words_from_spaced(2) [OF assms] by simp

lemma words_from_elems:
  "w \<in> set (words_from st cur cs) \<Longrightarrow> u \<in> set w \<Longrightarrow> u \<in> set cur \<union> set cs"
  by (induction st cur cs arbitrary: w rule: words_from.induct) (fastforce split: if_splits)+

lemma words_from_wf:
  assumes "list_all wf_uchar cs" and "words_from QNone [] cs = w # ws"
  shows "list_all wf_uchar (w @ spaced ws)"
proof -
  have "\<forall>v \<in> set (w # ws). list_all wf_uchar v"
    using assms words_from_elems [of _ QNone "[]" cs] by (fastforce simp: list_all_iff)
  then show ?thesis
    by (auto simp: spaced_def list_all_iff is_ascii_def)
qed

lemma words_from_hd:
  "words_from st cur cs = w # ws \<Longrightarrow>
   (if cur = [] then st = QNone \<longrightarrow> w \<noteq> [] \<and> \<not> is_whitespace (hd w) else hd w = hd cur)"
proof (induction cs arbitrary: st cur)
  case Nil
  then show ?case by (simp split: if_splits)
next
  case (Cons ch rest)
  show ?case
  proof (cases "st = QNone \<and> is_whitespace ch")
    case True
    with Cons.prems Cons.IH [of QNone "[]"] show ?thesis by (auto split: if_splits)
  next
    case False
    with Cons.prems have w: "words_from (next_quote st ch) (cur @ [ch]) rest = w # ws" by auto
    from Cons.IH [OF w] words_from_prefix [of "cur @ [ch]" "next_quote st ch" rest] w False
    show ?thesis by auto
  qed
qed

lemma words_from_last:
  "cs \<noteq> [] \<Longrightarrow> \<not> is_whitespace (last cs) \<Longrightarrow>
   words_from st cur cs \<noteq> [] \<and> last (words_from st cur cs) \<noteq> [] \<and>
   last (last (words_from st cur cs)) = last cs"
proof (induction cs arbitrary: st cur)
  case Nil
  then show ?case by simp
next
  case (Cons ch rest)
  show ?case
  proof (cases "rest = []")
    case True
    with Cons.prems show ?thesis by simp
  next
    case False
    with Cons show ?thesis by simp
  qed
qed

subsection \<open>Trimming\<close>

lemma valid_utf8_iff: "valid_utf8 s \<longleftrightarrow> (\<exists>us. list_all wf_uchar us \<and> s = concat us)"
  by (metis concat_chars valid_concat valid_utf8_def)

lemma trim_start_concat:
  "list_all wf_uchar us \<Longrightarrow> trim_start (concat us) = concat (dropWhile is_whitespace us)"
  by (simp add: trim_start_def chars_concat)

lemma trim_end_concat:
  "list_all wf_uchar us \<Longrightarrow>
   trim_end (concat us) = concat (rev (dropWhile is_whitespace (rev us)))"
  by (simp add: trim_end_def chars_concat)

lemma list_all_dropWhile: "list_all P us \<Longrightarrow> list_all P (dropWhile Q us)"
  by (auto simp: list_all_iff dest: set_dropWhileD)

text \<open>A list of characters with no whitespace at either end.\<close>

definition trimmed :: "uchar list \<Rightarrow> bool" where
  "trimmed us \<longleftrightarrow> list_all wf_uchar us \<and>
     (us \<noteq> [] \<longrightarrow> \<not> is_whitespace (hd us) \<and> \<not> is_whitespace (last us))"

lemma last_rev_dropWhile:
  "rev (dropWhile P (rev us)) \<noteq> [] \<Longrightarrow> \<not> P (last (rev (dropWhile P (rev us))))"
  by (metis hd_dropWhile last_rev rev_is_Nil_conv)

lemma rev_dropWhile_rev: "\<exists>vs. us = rev (dropWhile P (rev us)) @ vs"
  by (metis rev_append rev_rev_ident takeWhile_dropWhile_id)

lemma trim_end_trimmed:
  assumes "list_all wf_uchar us" and "us \<noteq> [] \<Longrightarrow> \<not> is_whitespace (hd us)"
  shows "\<exists>vs. trim_end (concat us) = concat vs \<and> trimmed vs"
proof -
  define vs where "vs = rev (dropWhile is_whitespace (rev us))"
  obtain ws where us: "us = vs @ ws" using rev_dropWhile_rev unfolding vs_def by blast
  have "vs \<noteq> [] \<Longrightarrow> \<not> is_whitespace (last vs)"
    unfolding vs_def by (rule last_rev_dropWhile)
  moreover have "vs \<noteq> [] \<Longrightarrow> \<not> is_whitespace (hd vs)"
    using assms(2) us by simp
  ultimately have "trimmed vs"
    using assms(1) us by (simp add: trimmed_def)
  then show ?thesis using trim_end_concat [OF assms(1)] unfolding vs_def by blast
qed

lemma trim_trimmed:
  assumes "valid_utf8 s"
  shows "\<exists>us. trim s = concat us \<and> trimmed us"
proof -
  let ?us = "dropWhile is_whitespace (chars s)"
  have "list_all wf_uchar ?us"
    using assms by (simp add: valid_utf8_def list_all_dropWhile)
  from trim_end_trimmed [OF this hd_dropWhile [of is_whitespace "chars s"]] show ?thesis
    by (simp add: trim_def trim_start_def)
qed

lemma trim_concat_id:
  assumes "trimmed us"
  shows "trim (concat us) = concat us"
proof (cases us rule: rev_cases)
  case Nil
  then show ?thesis by (simp add: trim_def trim_start_def trim_end_def)
next
  case (snoc vs v)
  obtain w ws where us: "us = w # ws" using snoc by (cases vs) auto
  have "\<not> is_whitespace v" using assms snoc by (simp add: trimmed_def)
  then have r: "dropWhile is_whitespace (rev us) = rev us" by (simp add: snoc)
  have "\<not> is_whitespace w" using assms us by (simp add: trimmed_def)
  then have l: "dropWhile is_whitespace us = us" by (simp add: us)
  have "list_all wf_uchar us" using assms by (simp add: trimmed_def)
  then show ?thesis
    by (simp only: trim_def trim_start_concat trim_end_concat l r rev_rev_ident)
qed

lemma wf_uchar_last: "wf_uchar u \<Longrightarrow> is_ascii (last u) \<Longrightarrow> u = [last u]"
  by (cases "map code u" rule: wf_codes.cases)
     (auto simp: wf_uchar_def is_ascii_def cont_byte_def)

lemma strip_suffix_concat:
  assumes "list_all wf_uchar us" and "is_ascii c" and "strip_suffix c (concat us) = Some t"
  shows "\<exists>vs. us = vs @ [[c]] \<and> t = concat vs"
proof -
  from assms(3) have ne: "concat us \<noteq> []" and l: "last (concat us) = c" and t: "t = butlast (concat us)"
    by (auto simp: strip_suffix_def split: if_splits)
  from ne obtain vs v where us: "us = vs @ [v]" by (cases us rule: rev_cases) auto
  with assms(1) have v: "wf_uchar v" "v \<noteq> []" by auto
  with us l assms(2) have "v = [c]" using wf_uchar_last [of v] by simp
  with us t show ?thesis by simp
qed

lemma lexical_trim_trimmed:
  assumes "valid_utf8 s"
  shows "\<exists>us. lexical_trim s = concat us \<and> trimmed us"
proof -
  obtain us where us: "trim s = concat us" "trimmed us" using trim_trimmed [OF assms] by blast
  show ?thesis
  proof (cases "strip_suffix (CHR '';'') (trim s)")
    case None
    with us show ?thesis by (auto simp: lexical_trim_def)
  next
    case (Some t)
    with us obtain vs where vs: "us = vs @ ['';'']" "t = concat vs"
      using strip_suffix_concat [of us "CHR '';''" t] by (auto simp: trimmed_def is_ascii_def)
    then have "list_all wf_uchar vs" "vs \<noteq> [] \<Longrightarrow> \<not> is_whitespace (hd vs)"
      using us(2) by (auto simp: trimmed_def)
    with trim_end_trimmed [of vs] Some vs show ?thesis by (auto simp: lexical_trim_def)
  qed
qed

subsection \<open>Properties of the lexical key\<close>

lemma normalize_lexical_spaced:
  assumes "valid_utf8 s"
  shows "\<exists>us. normalize_lexical s = concat us \<and> trimmed us \<and> words_from QNone [] us = sql_words s"
proof -
  obtain cs where cs: "lexical_trim s = concat cs" "trimmed cs"
    using lexical_trim_trimmed [OF assms] by blast
  then have wf: "list_all wf_uchar cs" and ch: "chars (lexical_trim s) = cs"
    by (simp_all add: trimmed_def chars_concat)
  have n: "normalize_lexical s = join '' '' (map concat (words_from QNone [] cs))"
    using normalize_loop_words [of cs False] ch Nil_notin_chars [of "lexical_trim s"]
    by (simp add: normalize_lexical_def)
  show ?thesis
  proof (cases "words_from QNone [] cs")
    case Nil
    with n ch show ?thesis by (auto simp: trimmed_def sql_words_def intro: exI [of _ "[]"])
  next
    case (Cons w ws)
    let ?us = "w @ spaced ws"
    have "cs \<noteq> []" using Cons by auto
    with cs(2) have l: "last (words_from QNone [] cs) \<noteq> []"
        "last (last (words_from QNone [] cs)) = last cs" "\<not> is_whitespace (last cs)"
      using words_from_last [of cs QNone "[]"] by (auto simp: trimmed_def)
    have h: "w \<noteq> []" "\<not> is_whitespace (hd w)" using words_from_hd [OF Cons] by auto
    have "last ?us = last cs"
      using l Cons by (cases ws rule: rev_cases) (auto simp: spaced_def)
    then have "trimmed ?us"
      using h l(3) words_from_wf [OF wf Cons] by (simp add: trimmed_def)
    moreover have "normalize_lexical s = concat ?us"
      using n Cons by (simp only: join_spaced)
    ultimately show ?thesis
      using words_from_respaced [OF Cons] Cons ch
      by (intro exI [of _ ?us]) (simp add: sql_words_def)
  qed
qed

text \<open>C6: the lexical fallback key of any text is its words, split at the whitespace outside
  quotes after trimming and dropping one trailing semicolon, joined by single spaces: the
  one-pass loop with its pending-space flag computes exactly that reference.\<close>

theorem normalize_lexical_words:
  "normalize_lexical s = join '' '' (map concat (sql_words s))"
  using normalize_loop_words [OF Nil_notin_chars]
  by (simp add: normalize_lexical_def sql_words_def)

text \<open>C7: two Rust strings get the same lexical key exactly when they have the same words, so
  texts that differ inside a quoted literal or identifier never share a key.\<close>

theorem normalize_lexical_eq_iff:
  assumes "valid_utf8 s" and "valid_utf8 t"
  shows "normalize_lexical s = normalize_lexical t \<longleftrightarrow> sql_words s = sql_words t"
proof
  assume eq: "normalize_lexical s = normalize_lexical t"
  obtain us where us: "normalize_lexical s = concat us" "trimmed us" "words_from QNone [] us = sql_words s"
    using normalize_lexical_spaced [OF assms(1)] by blast
  obtain vs where vs: "normalize_lexical t = concat vs" "trimmed vs" "words_from QNone [] vs = sql_words t"
    using normalize_lexical_spaced [OF assms(2)] by blast
  have "us = vs"
    using eq us(1,2) vs(1,2) by (metis chars_concat trimmed_def)
  with us(3) vs(3) show "sql_words s = sql_words t" by simp
next
  assume "sql_words s = sql_words t"
  then show "normalize_lexical s = normalize_lexical t"
    using normalize_loop_words [OF Nil_notin_chars]
    by (simp add: normalize_lexical_def sql_words_def)
qed

theorem normalize_lexical_eq_iff_witness:
  "normalize_lexical ''x  = 1 ;'' = normalize_lexical '' x = 1'' \<and>
   normalize_lexical ''x = 1'' \<noteq> normalize_lexical ''x =1''"
proof -
  have v: "valid_utf8 ''x  = 1 ;''" "valid_utf8 '' x = 1''" "valid_utf8 ''x = 1''" "valid_utf8 ''x =1''"
    by code_simp+
  have w: "sql_words ''x  = 1 ;'' = sql_words '' x = 1''" "sql_words ''x = 1'' \<noteq> sql_words ''x =1''"
    by code_simp+
  show ?thesis
    using normalize_lexical_eq_iff [OF v(1,2)] normalize_lexical_eq_iff [OF v(3,4)] w by simp
qed

text \<open>normalizing a lexical key again leaves it unchanged, unless the key still ends in a
  semicolon.\<close>

theorem normalize_lexical_idem:
  assumes "valid_utf8 s" and "strip_suffix (CHR '';'') (normalize_lexical s) = None"
  shows "normalize_lexical (normalize_lexical s) = normalize_lexical s"
proof -
  obtain us where us: "normalize_lexical s = concat us" "trimmed us" "words_from QNone [] us = sql_words s"
    using normalize_lexical_spaced [OF assms(1)] by blast
  then have "chars (lexical_trim (normalize_lexical s)) = us"
    using assms(2) by (simp add: lexical_trim_def trim_concat_id trimmed_def chars_concat)
  then have "sql_words (normalize_lexical s) = sql_words s"
    using us(3) by (simp add: sql_words_def)
  then show ?thesis
    using normalize_loop_words [OF Nil_notin_chars]
    by (simp add: normalize_lexical_def sql_words_def)
qed

theorem normalize_lexical_idem_witness:
  "normalize_lexical (normalize_lexical ''no  sql;'') = normalize_lexical ''no  sql;''"
  by (rule normalize_lexical_idem; code_simp)

text \<open>The exception of the last theorem is real: only one trailing semicolon is dropped.\<close>

lemma normalize_lexical_not_idempotent:
  "normalize_lexical ''a;;'' = ''a;''" "normalize_lexical ''a;'' = ''a''"
  by code_simp+

end
