(* ===== verification/Hash_Map.thy ===== *)
theory Hash_Map
  imports Prelude
begin

text \<open>
  \<open>std::collections::HashMap\<close> and \<open>HashSet\<close>. A map is the list of its entries in its
  (unspecified) iteration order, with distinct keys. \<open>insert\<close> may put the entry anywhere:
  the model puts it first, and theorems that depend on an iteration say so or are stated up
  to a permutation of the entries.

  The locale \<open>map_store\<close> is the contract the cache relies on; \<open>hm\<close> discharges it.
\<close>

type_synonym ('k, 'v) hash_map = "('k \<times> 'v) list"

definition hm_ok :: "('k, 'v) hash_map \<Rightarrow> bool" where
  "hm_ok m \<longleftrightarrow> distinct (map fst m)"

definition hm_get :: "('k, 'v) hash_map \<Rightarrow> 'k \<Rightarrow> 'v option" where
  "hm_get m k = map_of m k"

definition hm_contains :: "('k, 'v) hash_map \<Rightarrow> 'k \<Rightarrow> bool" where
  "hm_contains m k \<longleftrightarrow> hm_get m k \<noteq> None"

definition hm_remove :: "'k \<Rightarrow> ('k, 'v) hash_map \<Rightarrow> ('k, 'v) hash_map" where
  "hm_remove k m = filter (\<lambda>p. fst p \<noteq> k) m"

definition hm_insert :: "'k \<Rightarrow> 'v \<Rightarrow> ('k, 'v) hash_map \<Rightarrow> ('k, 'v) hash_map" where
  "hm_insert k v m = (k, v) # hm_remove k m"

definition hs_insert :: "'a \<Rightarrow> 'a list \<Rightarrow> 'a list" where
  "hs_insert x s = (if x \<in> set s then s else x # s)"

lemma hm_get_Nil [simp]: "hm_get [] k = None"
  by (simp add: hm_get_def)

lemma hm_get_Cons [simp]: "hm_get (p # m) k = (if fst p = k then Some (snd p) else hm_get m k)"
  by (cases p) (auto simp: hm_get_def)

lemma hm_get_remove [hmap]: "hm_get (hm_remove k m) = (hm_get m)(k := None)"
  by (rule ext, induction m) (auto simp: hm_remove_def)

lemma hm_get_insert [hmap]: "hm_get (hm_insert k v m) = (hm_get m)(k := Some v)"
  by (rule ext) (simp add: hm_insert_def hm_get_remove)

lemma hm_ok_remove [hmap]: "hm_ok m \<Longrightarrow> hm_ok (hm_remove k m)"
  by (auto simp: hm_ok_def hm_remove_def intro: distinct_map_filterI)

lemma hm_ok_insert [hmap]: "hm_ok m \<Longrightarrow> hm_ok (hm_insert k v m)"
  by (auto simp: hm_insert_def hm_remove_def hm_ok_def intro: distinct_map_filterI)

lemma hm_contains_iff: "hm_contains m k \<longleftrightarrow> k \<in> fst ` set m"
  by (simp add: hm_contains_def hm_get_def map_of_eq_None_iff)

lemma hm_remove_absent: "\<not> hm_contains m k \<Longrightarrow> hm_remove k m = m"
  by (auto simp: hm_contains_iff hm_remove_def filter_id_conv)

lemma length_hm_remove [hmap]:
  "hm_ok m \<Longrightarrow> length (hm_remove k m) = (if hm_contains m k then length m - 1 else length m)"
proof (cases "hm_contains m k")
  case True
  moreover assume "hm_ok m"
  ultimately show ?thesis by (simp add: length_filter_key hm_ok_def hm_contains_iff hm_remove_def)
qed (simp add: hm_remove_absent)

lemma hm_contains_length: "hm_contains m k \<Longrightarrow> 0 < length m"
  by (auto simp: hm_contains_iff)

lemma length_hm_insert [hmap]:
  "hm_ok m \<Longrightarrow> length (hm_insert k v m) = (if hm_contains m k then length m else Suc (length m))"
  using hm_contains_length [of m k] by (auto simp: hm_insert_def length_hm_remove)

lemma set_hm_remove [hmap]: "set (hm_remove k m) = {p \<in> set m. fst p \<noteq> k}"
  by (simp add: hm_remove_def)

lemma set_hm_insert [hmap]: "set (hm_insert k v m) = insert (k, v) {p \<in> set m. fst p \<noteq> k}"
  by (simp add: hm_insert_def set_hm_remove)

lemma hm_get_in: "hm_get m k = Some v \<Longrightarrow> (k, v) \<in> set m"
  by (simp add: hm_get_def map_of_SomeD)

lemma hm_get_iff: "hm_ok m \<Longrightarrow> hm_get m k = Some v \<longleftrightarrow> (k, v) \<in> set m"
  by (simp add: hm_ok_def hm_get_def)

text \<open>The contract of a keyed store with a size.\<close>

locale map_store =
  fixes empty :: "'m"
    and get :: "'m \<Rightarrow> 'k \<Rightarrow> 'v option"
    and insert :: "'k \<Rightarrow> 'v \<Rightarrow> 'm \<Rightarrow> 'm"
    and remove :: "'k \<Rightarrow> 'm \<Rightarrow> 'm"
    and len :: "'m \<Rightarrow> nat"
    and ok :: "'m \<Rightarrow> bool"
  assumes ok_empty: "ok empty"
    and ok_insert: "ok m \<Longrightarrow> ok (insert k v m)"
    and ok_remove: "ok m \<Longrightarrow> ok (remove k m)"
    and get_empty: "get empty k = None"
    and get_insert: "get (insert k v m) k' = (if k' = k then Some v else get m k')"
    and get_remove: "get (remove k m) k' = (if k' = k then None else get m k')"
    and len_empty: "len empty = 0"
    and len_insert: "ok m \<Longrightarrow> len (insert k v m) = (if get m k = None then Suc (len m) else len m)"
    and len_remove: "ok m \<Longrightarrow> len (remove k m) = (if get m k = None then len m else len m - 1)"
begin

lemma insert_within:
  "ok m \<Longrightarrow> len m \<le> n \<Longrightarrow> get m k \<noteq> None \<or> len m < n \<Longrightarrow> len (insert k v m) \<le> n"
  by (auto simp: len_insert)

lemma make_room:
  "ok m \<Longrightarrow> len m \<le> n \<Longrightarrow> 0 < n \<Longrightarrow> get m k' \<noteq> None \<Longrightarrow> len (insert k v (remove k' m)) \<le> n"
  by (auto simp: len_insert len_remove ok_remove)

lemma len_remove_le: "ok m \<Longrightarrow> len (remove k m) \<le> len m"
  by (simp add: len_remove)

end

interpretation hm: map_store "[]" hm_get hm_insert hm_remove length hm_ok
  by unfold_locales (auto simp: hmap hm_contains_def hm_ok_def [of "[]"])

end
