(* ===== verification/Cache_Layer.thy ===== *)
theory Cache_Layer
  imports Query_Key Hash_Map
begin

text \<open>
  \<open>src/cache_layer.rs\<close>, the bounded, expiring, least-recently-used result cache.

  An \<open>Instant\<close> is its distance in nanoseconds from an origin, so \<open>duration_since\<close>, which
  saturates at zero, is subtraction on \<open>nat\<close>; the clock is read once by \<open>get\<close> and once by
  \<open>set\<close>, and its reading is the argument \<open>now\<close> (readings need not be monotone: they are
  taken before the lock). The counters are \<open>u64\<close> words, which wrap in a release build.
  Each method holds the mutex for all of its effect, so a method is one atomic state
  transformer.
\<close>

subsection \<open>The cache and its operations\<close>

record cache_stats =
  s_hits :: u64
  s_misses :: u64
  s_evictions_lru :: u64
  s_evictions_ttl :: u64
  s_entries :: nat

record 'v entry =
  batches :: 'v
  inserted_at :: nat
  last_used :: u64

record 'v inner =
  store :: "(string, 'v entry) hash_map"
  tick :: u64
  hits :: u64
  misses :: u64
  evictions_lru :: u64
  evictions_ttl :: u64

record 'v cache =
  inner :: "'v inner"
  max_entries :: nat
  ttl :: nat

datatype cache_panic = MaxEntriesNotPositive | TtlNotPositive

definition with_clock :: "nat \<Rightarrow> nat \<Rightarrow> cache_panic + 'v cache" where
  "with_clock max_n ttl_ns =
     (if \<not> max_n > 0 then Inl MaxEntriesNotPositive
      else if ttl_ns = 0 then Inl TtlNotPositive
      else Inr \<lparr>inner = \<lparr>store = [], tick = 0, hits = 0, misses = 0, evictions_lru = 0,
                          evictions_ttl = 0\<rparr>,
                max_entries = max_n, ttl = ttl_ns\<rparr>)"

text \<open>\<open>Cache::get\<close> and \<open>Cache::set\<close> on an already normalized key.\<close>

datatype 'v lookup = Hit 'v | Expired | Absent

definition lookup_entry :: "'v cache \<Rightarrow> nat \<Rightarrow> string \<Rightarrow> 'v lookup" where
  "lookup_entry c now key =
     (case hm_get (store (inner c)) key of
        Some e \<Rightarrow> if now - inserted_at e \<le> ttl c then Hit (batches e) else Expired
      | None \<Rightarrow> Absent)"

definition get_key :: "'v cache \<Rightarrow> nat \<Rightarrow> string \<Rightarrow> 'v option \<times> 'v cache" where
  "get_key c now key =
     (let i = (inner c)\<lparr>tick := tick (inner c) + 1\<rparr>; t = tick i
      in case lookup_entry c now key of
           Hit b \<Rightarrow>
             (Some b,
              c\<lparr>inner := i\<lparr>store := (case hm_get (store i) key of
                                       Some e \<Rightarrow> hm_insert key (e\<lparr>last_used := t\<rparr>) (store i)
                                     | None \<Rightarrow> store i),
                           hits := hits i + 1\<rparr>\<rparr>)
         | Expired \<Rightarrow>
             (None,
              c\<lparr>inner := i\<lparr>store := hm_remove key (store i),
                           evictions_ttl := evictions_ttl i + 1,
                           misses := misses i + 1\<rparr>\<rparr>)
         | Absent \<Rightarrow> (None, c\<lparr>inner := i\<lparr>misses := misses i + 1\<rparr>\<rparr>))"

definition lru_key :: "(string, 'v entry) hash_map \<Rightarrow> string option" where
  "lru_key m = map_option fst (min_by_key (\<lambda>p. last_used (snd p)) m)"

definition evict_lru :: "nat \<Rightarrow> string \<Rightarrow> 'v inner \<Rightarrow> 'v inner" where
  "evict_lru max_n key i =
     (if \<not> hm_contains (store i) key \<and> length (store i) \<ge> max_n
      then (case lru_key (store i) of
              Some k \<Rightarrow> i\<lparr>store := hm_remove k (store i), evictions_lru := evictions_lru i + 1\<rparr>
            | None \<Rightarrow> i)
      else i)"

definition set_key :: "'v cache \<Rightarrow> nat \<Rightarrow> string \<Rightarrow> 'v \<Rightarrow> 'v cache" where
  "set_key c now key b =
     (let i = (inner c)\<lparr>tick := tick (inner c) + 1\<rparr>;
          t = tick i;
          i = evict_lru (max_entries c) key i
      in c\<lparr>inner := i\<lparr>store := hm_insert key \<lparr>batches = b, inserted_at = now, last_used = t\<rparr>
                                          (store i)\<rparr>\<rparr>)"

definition cache_get ::
  "(string \<Rightarrow> string list option) \<Rightarrow> 'v cache \<Rightarrow> nat \<Rightarrow> string \<Rightarrow> 'v option \<times> 'v cache" where
  "cache_get parse_sql c now sql = get_key c now (normalize_query parse_sql sql)"

definition cache_set ::
  "(string \<Rightarrow> string list option) \<Rightarrow> 'v cache \<Rightarrow> nat \<Rightarrow> string \<Rightarrow> 'v \<Rightarrow> 'v cache" where
  "cache_set parse_sql c now sql b = set_key c now (normalize_query parse_sql sql) b"

definition cache_clear :: "'v cache \<Rightarrow> 'v cache" where
  "cache_clear c = c\<lparr>inner := (inner c)\<lparr>store := []\<rparr>\<rparr>"

definition cache_len :: "'v cache \<Rightarrow> nat" where
  "cache_len c = length (store (inner c))"

definition cache_is_empty :: "'v cache \<Rightarrow> bool" where
  "cache_is_empty c \<longleftrightarrow> cache_len c = 0"

definition stats :: "'v cache \<Rightarrow> cache_stats" where
  "stats c = \<lparr>s_hits = hits (inner c), s_misses = misses (inner c),
              s_evictions_lru = evictions_lru (inner c),
              s_evictions_ttl = evictions_ttl (inner c),
              s_entries = length (store (inner c))\<rparr>"

subsection \<open>Well-formedness\<close>

text \<open>\<open>cache_ok\<close> needs no assumption on the counters. \<open>ticks_ok\<close> says that the recency stamps
  order the entries; it is kept as long as the \<open>u64\<close> tick does not wrap.\<close>

definition cache_ok :: "'v cache \<Rightarrow> bool" where
  "cache_ok c \<longleftrightarrow> hm_ok (store (inner c)) \<and> length (store (inner c)) \<le> max_entries c \<and>
     0 < max_entries c \<and> 0 < ttl c"

definition used_at :: "string \<times> 'v entry \<Rightarrow> u64" where
  "used_at p = last_used (snd p)"

definition ticks_ok :: "'v cache \<Rightarrow> bool" where
  "ticks_ok c \<longleftrightarrow> distinct (map used_at (store (inner c))) \<and>
     (\<forall>p \<in> set (store (inner c)). used_at p \<le> tick (inner c))"

lemma lru_key_unfold: "lru_key m = map_option fst (min_by_key used_at m)"
  by (simp add: lru_key_def used_at_def [abs_def])

lemma lru_key_in: "lru_key m = Some k \<Longrightarrow> hm_contains m k"
  by (force simp: lru_key_unfold hm_contains_iff dest!: min_by_key_Some)

lemma lru_key_ex: "m \<noteq> [] \<Longrightarrow> \<exists>k. lru_key m = Some k"
  by (cases "min_by_key used_at m") (auto simp: lru_key_unfold)

lemma get_key_parts:
  "max_entries (snd (get_key c now k)) = max_entries c"
  "ttl (snd (get_key c now k)) = ttl c"
  "tick (inner (snd (get_key c now k))) = tick (inner c) + 1"
  "evictions_lru (inner (snd (get_key c now k))) = evictions_lru (inner c)"
  by (auto simp: get_key_def Let_def split: lookup.splits)

lemma evict_lru_parts [simp]:
  "tick (evict_lru n k i) = tick i" "hits (evict_lru n k i) = hits i"
  "misses (evict_lru n k i) = misses i" "evictions_ttl (evict_lru n k i) = evictions_ttl i"
  by (auto simp: evict_lru_def split: option.splits)

lemma set_key_parts:
  "max_entries (set_key c now k b) = max_entries c"
  "ttl (set_key c now k b) = ttl c"
  "tick (inner (set_key c now k b)) = tick (inner c) + 1"
  "hits (inner (set_key c now k b)) = hits (inner c)"
  "misses (inner (set_key c now k b)) = misses (inner c)"
  by (simp_all add: set_key_def Let_def)

lemma clear_parts [simp]:
  "max_entries (cache_clear c) = max_entries c" "ttl (cache_clear c) = ttl c"
  "tick (inner (cache_clear c)) = tick (inner c)" "hits (inner (cache_clear c)) = hits (inner c)"
  "misses (inner (cache_clear c)) = misses (inner c)" "store (inner (cache_clear c)) = []"
  by (simp_all add: cache_clear_def)

text \<open>The effect of \<open>get\<close> and \<open>set\<close> on the entries.\<close>

lemma get_key_result:
  "fst (get_key c now k) =
     (case hm_get (store (inner c)) k of None \<Rightarrow> None
      | Some e \<Rightarrow> if now - inserted_at e \<le> ttl c then Some (batches e) else None)"
  by (simp add: get_key_def lookup_entry_def Let_def split: option.splits)

lemma get_key_store:
  "store (inner (snd (get_key c now k))) =
     (case hm_get (store (inner c)) k of None \<Rightarrow> store (inner c)
      | Some e \<Rightarrow> if now - inserted_at e \<le> ttl c
                  then hm_insert k (e\<lparr>last_used := tick (inner c) + 1\<rparr>) (store (inner c))
                  else hm_remove k (store (inner c)))"
  by (simp add: get_key_def lookup_entry_def Let_def split: option.splits)

lemma set_key_store:
  "store (inner (set_key c now k b)) =
     hm_insert k \<lparr>batches = b, inserted_at = now, last_used = tick (inner c) + 1\<rparr>
       (let m = store (inner c)
        in if \<not> hm_contains m k \<and> length m \<ge> max_entries c
           then (case lru_key m of Some k' \<Rightarrow> hm_remove k' m | None \<Rightarrow> m) else m)"
  by (simp add: set_key_def evict_lru_def Let_def split: option.splits)

lemma cache_ok_get:
  assumes "cache_ok c"
  shows "cache_ok (snd (get_key c now k))"
proof -
  have "length (store (inner (snd (get_key c now k)))) \<le> max_entries c"
    using assms hm.insert_within [of "store (inner c)" "max_entries c" k]
      hm.len_remove_le [of "store (inner c)" k]
    by (auto simp: cache_ok_def get_key_store split: option.splits)
  moreover have "hm_ok (store (inner (snd (get_key c now k))))"
    using assms by (auto simp: cache_ok_def get_key_store hmap split: option.splits)
  ultimately show ?thesis
    using assms by (simp add: cache_ok_def get_key_parts)
qed

lemma cache_ok_set:
  assumes "cache_ok c"
  shows "cache_ok (set_key c now k b)"
proof -
  let ?m = "store (inner c)"
  have ok: "hm_ok ?m" "length ?m \<le> max_entries c" "0 < max_entries c"
    using assms by (simp_all add: cache_ok_def)
  have "length (store (inner (set_key c now k b))) \<le> max_entries c"
  proof (cases "\<not> hm_contains ?m k \<and> length ?m \<ge> max_entries c")
    case True
    with ok have "?m \<noteq> []" by auto
    then obtain k' where k': "lru_key ?m = Some k'" using lru_key_ex by blast
    with True ok lru_key_in [OF k'] show ?thesis
      using hm.make_room [of ?m "max_entries c" k'] by (simp add: set_key_store hm_contains_def)
  next
    case False
    then have "hm_get ?m k \<noteq> None \<or> length ?m < max_entries c"
      by (auto simp: hm_contains_def)
    with ok False hm.insert_within [of ?m "max_entries c" k] show ?thesis
      by (auto simp: set_key_store Let_def)
  qed
  moreover have "hm_ok (store (inner (set_key c now k b)))"
    using ok by (auto simp: set_key_store hmap Let_def split: option.splits)
  ultimately show ?thesis
    using assms by (simp add: cache_ok_def set_key_parts)
qed

lemma cache_ok_clear: "cache_ok c \<Longrightarrow> cache_ok (cache_clear c)"
  by (simp add: cache_ok_def hm_ok_def)

lemma cache_ok_new: "with_clock n t = Inr c \<Longrightarrow> cache_ok c \<and> ticks_ok c \<and> tick (inner c) = 0"
  by (auto simp: with_clock_def cache_ok_def ticks_ok_def hm_ok_def split: if_splits)

lemma with_clock_empty: "with_clock n t = Inr c \<Longrightarrow> cache_is_empty c"
  by (auto simp: with_clock_def cache_is_empty_def cache_len_def split: if_splits)

lemmas cache_ok_ops = cache_ok_get cache_ok_set cache_ok_clear

end
