(* ===== verification/Cache_Lru.thy ===== *)
theory Cache_Lru
  imports Cache_Layer
begin

text \<open>
  The cache of \<open>src/cache_layer.rs\<close> implements a least-recently-used list.

  The specification state is the list of cached keys with their value and insertion time,
  least recently used first: a hit moves its entry to the end, an expired entry is removed,
  and storing a new key into a full list drops the head. \<open>recency\<close> reads that list off the
  hash map by sorting its entries by \<open>last_used\<close>; the refinement lemmas hold while the tick
  has not wrapped, and the result does not depend on the hash map's iteration order.
\<close>

type_synonym 'v lru = "(string \<times> 'v \<times> nat) list"

subsection \<open>The specification\<close>

definition lru_get :: "nat \<Rightarrow> nat \<Rightarrow> string \<Rightarrow> 'v lru \<Rightarrow> 'v option \<times> 'v lru" where
  "lru_get ttl_ns now k l =
     (case hm_get l k of None \<Rightarrow> (None, l)
      | Some (v, t) \<Rightarrow> if now - t \<le> ttl_ns then (Some v, hm_remove k l @ [(k, v, t)])
                      else (None, hm_remove k l))"

definition lru_set :: "nat \<Rightarrow> nat \<Rightarrow> string \<Rightarrow> 'v \<Rightarrow> 'v lru \<Rightarrow> 'v lru" where
  "lru_set n now k v l =
     hm_remove k (if \<not> hm_contains l k \<and> length l \<ge> n then tl l else l) @ [(k, v, now)]"

subsection \<open>The abstraction\<close>

definition strip :: "string \<times> 'v entry \<Rightarrow> string \<times> 'v \<times> nat" where
  "strip p = (fst p, batches (snd p), inserted_at (snd p))"

definition by_use :: "(string, 'v entry) hash_map \<Rightarrow> (string, 'v entry) hash_map" where
  "by_use m = sort_key used_at m"

definition recency :: "'v cache \<Rightarrow> 'v lru" where
  "recency c = map strip (by_use (store (inner c)))"

lemma set_by_use [simp]: "set (by_use m) = set m"
  by (simp add: by_use_def)

lemma length_by_use [simp]: "length (by_use m) = length m"
  by (simp add: by_use_def)

lemma hm_ok_by_use [simp]: "hm_ok (by_use m) = hm_ok m"
  by (simp add: hm_ok_def by_use_def distinct_map)

lemma hm_remove_by_use: "hm_remove k (by_use m) = by_use (hm_remove k m)"
  by (simp add: hm_remove_def by_use_def filter_sort)

lemma hm_get_by_use: "hm_ok m \<Longrightarrow> hm_get (by_use m) k = hm_get m k"
  by (metis hm_get_iff hm_ok_by_use option.exhaust set_by_use)

lemma hm_get_strip: "hm_get (map strip m) k = map_option (\<lambda>e. (batches e, inserted_at e)) (hm_get m k)"
  by (induction m) (auto simp: strip_def)

lemma hm_remove_strip: "hm_remove k (map strip m) = map strip (hm_remove k m)"
  by (simp add: hm_remove_def filter_map comp_def strip_def)

lemma hm_get_recency:
  "hm_ok (store (inner c)) \<Longrightarrow>
   hm_get (recency c) k = map_option (\<lambda>e. (batches e, inserted_at e)) (hm_get (store (inner c)) k)"
  by (simp add: recency_def hm_get_strip hm_get_by_use)

lemma hm_contains_recency:
  "hm_ok (store (inner c)) \<Longrightarrow> hm_contains (recency c) k = hm_contains (store (inner c)) k"
  by (simp add: hm_contains_def hm_get_recency)

lemma hm_remove_recency: "hm_remove k (recency c) = map strip (by_use (hm_remove k (store (inner c))))"
  by (simp add: recency_def hm_remove_strip hm_remove_by_use)

lemma length_recency [simp]: "length (recency c) = length (store (inner c))"
  by (simp add: recency_def)

lemma by_use_insert:
  assumes "\<And>p. p \<in> set m \<Longrightarrow> used_at p < last_used e"
  shows "by_use (hm_insert k e m) = by_use (hm_remove k m) @ [(k, e)]"
  using assms unfolding by_use_def hm_insert_def
  by (intro sort_key_Cons_last) (simp add: hmap used_at_def)

text \<open>The evicted key is the head of the list: the minimum is unique.\<close>

lemma lru_key_hd:
  assumes "distinct (map used_at m)" and "m \<noteq> []"
  shows "lru_key m = Some (fst (hd (by_use m)))"
proof -
  obtain p where p: "min_by_key used_at m = Some p"
    using assms(2) by (cases "min_by_key used_at m") auto
  obtain h t where h: "by_use m = h # t"
    using assms(2) by (metis length_0_conv length_by_use neq_Nil_conv)
  have "sorted (map used_at (h # t))"
    unfolding h [symmetric] by_use_def by simp
  then have "used_at h \<le> used_at p"
    using min_by_key_Some [OF p] set_by_use [of m] h by auto
  moreover have "used_at p \<le> used_at h"
    using min_by_key_Some [OF p] set_by_use [of m] h by auto
  moreover have "inj_on used_at (set m)"
    using assms(1) by (simp add: distinct_map)
  ultimately have "p = h"
    using min_by_key_Some [OF p] set_by_use [of m] h by (auto dest: inj_onD)
  then show ?thesis by (simp add: lru_key_unfold p h)
qed

lemma hm_remove_hd:
  assumes "hm_ok m" and "m \<noteq> []"
  shows "by_use (hm_remove (fst (hd (by_use m))) m) = tl (by_use m)"
proof -
  have "by_use m \<noteq> []" using assms(2) by (metis length_0_conv length_by_use)
  moreover have "distinct (map fst (by_use m))" using assms(1) hm_ok_by_use [of m] by (simp add: hm_ok_def)
  ultimately have "hm_remove (fst (hd (by_use m))) (by_use m) = tl (by_use m)"
    unfolding hm_remove_def by (rule filter_neq_hd [rotated])
  then show ?thesis by (simp add: hm_remove_by_use)
qed

subsection \<open>Refinement\<close>

lemma ticks_lt:
  assumes "ticks_ok c" and "tick (inner c) \<noteq> - 1" and "p \<in> set (store (inner c))"
  shows "used_at p < tick (inner c) + 1"
proof -
  have "unat (used_at p) \<le> unat (tick (inner c))"
    using assms(1,3) by (simp add: ticks_ok_def word_le_nat_alt)
  then show ?thesis
    using unat_Suc_u64 [OF assms(2)] by (simp add: word_less_nat_alt)
qed

lemma recency_get:
  assumes "cache_ok c" and "ticks_ok c" and "tick (inner c) \<noteq> - 1"
  shows "recency (snd (get_key c now k)) = snd (lru_get (ttl c) now k (recency c))"
    and "fst (get_key c now k) = fst (lru_get (ttl c) now k (recency c))"
proof -
  have ok: "hm_ok (store (inner c))" using assms(1) by (simp add: cache_ok_def)
  note get = hm_get_recency [OF ok] and rem = hm_remove_recency [of k c]
  show "recency (snd (get_key c now k)) = snd (lru_get (ttl c) now k (recency c))"
  proof (cases "hm_get (store (inner c)) k")
    case None
    then show ?thesis by (simp add: recency_def get_key_store lru_get_def get [unfolded recency_def])
  next
    case (Some e)
    show ?thesis
    proof (cases "now - inserted_at e \<le> ttl c")
      case True
      with Some have "recency (snd (get_key c now k)) =
          map strip (by_use (hm_insert k (e\<lparr>last_used := tick (inner c) + 1\<rparr>) (store (inner c))))"
        by (simp add: recency_def get_key_store)
      also have "\<dots> = hm_remove k (recency c) @ [(k, batches e, inserted_at e)]"
        using ticks_lt [OF assms(2,3)] by (simp add: by_use_insert rem strip_def)
      finally show ?thesis using Some True by (simp add: lru_get_def get)
    next
      case False
      then show ?thesis
        using Some by (simp add: lru_get_def get rem) (simp add: recency_def get_key_store)
    qed
  qed
  show "fst (get_key c now k) = fst (lru_get (ttl c) now k (recency c))"
    by (auto simp: get_key_result lru_get_def get split: option.splits)
qed

lemma recency_set:
  assumes "cache_ok c" and "ticks_ok c" and "tick (inner c) \<noteq> - 1"
  shows "recency (set_key c now k b) = lru_set (max_entries c) now k b (recency c)"
proof -
  let ?m = "store (inner c)"
  let ?full = "\<not> hm_contains ?m k \<and> length ?m \<ge> max_entries c"
  let ?m' = "if ?full then hm_remove (fst (hd (by_use ?m))) ?m else ?m"
  have ok: "hm_ok ?m" and pos: "0 < max_entries c" using assms(1) by (simp_all add: cache_ok_def)
  have "store (inner (set_key c now k b)) =
      hm_insert k \<lparr>batches = b, inserted_at = now, last_used = tick (inner c) + 1\<rparr> ?m'"
  proof (cases ?full)
    case True
    with pos have "?m \<noteq> []" by auto
    with True assms(2) show ?thesis
      by (simp add: set_key_store lru_key_hd ticks_ok_def Let_def)
  qed (auto simp: set_key_store Let_def)
  moreover have "\<And>p. p \<in> set ?m' \<Longrightarrow> used_at p < tick (inner c) + 1"
    using ticks_lt [OF assms(2,3)] by (auto simp: hmap split: if_splits)
  ultimately have "recency (set_key c now k b) =
      map strip (by_use (hm_remove k ?m')) @ [(k, b, now)]"
    by (simp add: recency_def by_use_insert strip_def)
  moreover have "map strip (by_use ?m') = (if ?full then tl (recency c) else recency c)"
  proof (cases ?full)
    case True
    with pos have "?m \<noteq> []" by auto
    with True ok show ?thesis by (simp add: hm_remove_hd recency_def map_tl)
  qed (auto simp: recency_def)
  moreover have "map strip (by_use (hm_remove k ?m')) = hm_remove k (map strip (by_use ?m'))"
    by (simp only: hm_remove_strip hm_remove_by_use)
  ultimately show ?thesis
    using ok by (simp add: lru_set_def hm_contains_recency)
qed

lemma ticks_ok_insert:
  assumes "distinct (map used_at m)" and "\<And>p. p \<in> set m \<Longrightarrow> used_at p < t" and "last_used e = t"
  shows "distinct (map used_at (hm_insert k e m)) \<and> (\<forall>p \<in> set (hm_insert k e m). used_at p \<le> t)"
  using assms
  by (fastforce simp: hm_insert_def hm_remove_def used_at_def [of "(k, e)"]
      intro: distinct_map_filterI less_imp_le)

lemma ticks_ok_remove: "distinct (map used_at m) \<Longrightarrow> distinct (map used_at (hm_remove k m))"
  by (simp add: hm_remove_def distinct_map_filterI)

lemma ticks_ok_get:
  assumes "ticks_ok c" and "tick (inner c) \<noteq> - 1"
  shows "ticks_ok (snd (get_key c now k))"
proof -
  have d: "distinct (map used_at (store (inner c)))" using assms(1) by (simp add: ticks_ok_def)
  note lt = ticks_lt [OF assms]
  have le: "\<And>p. p \<in> set (store (inner c)) \<Longrightarrow> used_at p \<le> tick (inner c) + 1"
    using lt by (simp add: less_imp_le)
  show ?thesis
    using d le ticks_ok_insert [OF d lt] ticks_ok_remove [OF d, of k]
    by (auto simp: ticks_ok_def get_key_store get_key_parts hmap split: option.splits)
qed

lemma ticks_ok_set:
  assumes "ticks_ok c" and "tick (inner c) \<noteq> - 1"
  shows "ticks_ok (set_key c now k b)"
proof -
  define m where "m = (let m = store (inner c)
    in if \<not> hm_contains m k \<and> length m \<ge> max_entries c
       then (case lru_key m of Some k' \<Rightarrow> hm_remove k' m | None \<Rightarrow> m) else m)"
  have "distinct (map used_at m)"
    using assms(1) by (auto simp: m_def Let_def ticks_ok_def ticks_ok_remove split: option.splits)
  moreover have "\<And>p. p \<in> set m \<Longrightarrow> used_at p < tick (inner c) + 1"
    using ticks_lt [OF assms] by (auto simp: m_def Let_def hmap split: if_splits option.splits)
  ultimately show ?thesis
    unfolding ticks_ok_def set_key_store set_key_parts m_def [symmetric]
    using ticks_ok_insert [of m "tick (inner c) + 1" "\<lparr>batches = b, inserted_at = now, last_used = tick (inner c) + 1\<rparr>" k]
    by simp
qed

lemma ticks_ok_clear: "ticks_ok (cache_clear c)"
  by (simp add: ticks_ok_def)

lemma recency_clear: "recency (cache_clear c) = []"
  by (simp add: recency_def by_use_def)

subsection \<open>Runs\<close>

text \<open>The calls other components make on the shared cache. \<open>parse_sql\<close> fixes the keys.\<close>

datatype 'v cache_op = Get nat string | Set nat string 'v | Clear

fun cache_step :: "(string \<Rightarrow> string list option) \<Rightarrow> 'v cache \<Rightarrow> 'v cache_op \<Rightarrow> 'v cache" where
  "cache_step p c (Get now q) = snd (cache_get p c now q)"
| "cache_step p c (Set now q v) = cache_set p c now q v"
| "cache_step p c Clear = cache_clear c"

definition cache_run ::
  "(string \<Rightarrow> string list option) \<Rightarrow> 'v cache \<Rightarrow> 'v cache_op list \<Rightarrow> 'v cache" where
  "cache_run p c ops = foldl (cache_step p) c ops"

fun lru_step :: "(string \<Rightarrow> string list option) \<Rightarrow> nat \<Rightarrow> nat \<Rightarrow> 'v lru \<Rightarrow> 'v cache_op \<Rightarrow> 'v lru" where
  "lru_step p n t l (Get now q) = snd (lru_get t now (normalize_query p q) l)"
| "lru_step p n t l (Set now q v) = lru_set n now (normalize_query p q) v l"
| "lru_step p n t l Clear = []"

lemmas cache_op_defs = cache_get_def cache_set_def

lemma cache_run_simps [simp]:
  "cache_run p c [] = c"
  "cache_run p c (x # xs) = cache_run p (cache_step p c x) xs"
  by (simp_all add: cache_run_def)

lemma cache_ok_step: "cache_ok c \<Longrightarrow> cache_ok (cache_step p c x)"
  by (cases x) (simp_all add: cache_op_defs cache_ok_ops)

lemma cache_step_limits:
  "max_entries (cache_step p c x) = max_entries c" "ttl (cache_step p c x) = ttl c"
  by (cases x; simp add: cache_op_defs get_key_parts set_key_parts)+

lemma cache_run_limits:
  "max_entries (cache_run p c xs) = max_entries c" "ttl (cache_run p c xs) = ttl c"
  by (induction xs arbitrary: c) (simp_all add: cache_step_limits)

lemma cache_ok_run: "cache_ok c \<Longrightarrow> cache_ok (cache_run p c xs)"
  by (induction xs arbitrary: c) (simp_all add: cache_ok_step)

lemma tick_step_le:
  "unat (tick (inner c)) + 1 < 2 ^ 64 \<Longrightarrow>
   unat (tick (inner (cache_step p c x))) \<le> Suc (unat (tick (inner c)))"
  by (cases x) (auto simp: cache_op_defs get_key_parts set_key_parts unat_word_ariths)

lemma tick_not_max: "unat (t :: u64) + 1 < 2 ^ 64 \<Longrightarrow> t \<noteq> - 1"
  by (auto simp: unsigned_minus_1_eq_mask mask_eq_exp_minus_1)

lemma step_refines:
  assumes "cache_ok c" and "ticks_ok c" and "unat (tick (inner c)) + 1 < 2 ^ 64"
  shows "ticks_ok (cache_step p c x)"
    and "recency (cache_step p c x) = lru_step p (max_entries c) (ttl c) (recency c) x"
  using assms tick_not_max [OF assms(3)]
  by (cases x; simp add: cache_op_defs ticks_ok_get ticks_ok_set ticks_ok_clear recency_get
      recency_set recency_clear)+

lemma run_refines:
  assumes "cache_ok c" and "ticks_ok c" and "unat (tick (inner c)) + length xs < 2 ^ 64"
  shows "ticks_ok (cache_run p c xs) \<and>
     recency (cache_run p c xs) = foldl (lru_step p (max_entries c) (ttl c)) (recency c) xs \<and>
     unat (tick (inner (cache_run p c xs))) \<le> unat (tick (inner c)) + length xs"
  using assms
proof (induction xs arbitrary: c)
  case Nil
  then show ?case by simp
next
  case (Cons x xs)
  from Cons.prems have t: "unat (tick (inner c)) + 1 < 2 ^ 64" by simp
  note le = tick_step_le [OF t, of p x]
  from Cons.prems le have "unat (tick (inner (cache_step p c x))) + length xs < 2 ^ 64" by simp
  from Cons.IH [OF cache_ok_step step_refines(1) this] Cons.prems t le
  show ?case by (simp add: step_refines(2) cache_step_limits)
qed

end
