(* ===== verification/Cache_Spec.thy ===== *)
theory Cache_Spec
  imports Cache_Lru
begin

text \<open>
  What the cache of \<open>src/cache_layer.rs\<close> promises its callers, over whole histories of
  \<open>get\<close>, \<open>set\<close> and \<open>clear\<close>: refinement of the LRU list, retention of a working set smaller
  than the capacity, hits that return the latest value stored under the key, bounds and
  counters. The locale \<open>result_cache\<close> is the part of this contract that the server and the
  CDC listener use.
\<close>

subsection \<open>Retention, on the specification\<close>

definition held_before :: "string \<Rightarrow> 'v \<Rightarrow> nat \<Rightarrow> string set \<Rightarrow> 'v lru \<Rightarrow> bool" where
  "held_before k v t K l \<longleftrightarrow> hm_ok l \<and>
     (\<exists>pre post. l = pre @ (k, v, t) # post \<and> fst ` set post \<subseteq> K)"

lemma hm_remove_append [simp]: "hm_remove k (l @ l') = hm_remove k l @ hm_remove k l'"
  by (simp add: hm_remove_def)

lemma hm_remove_Cons: "hm_remove k (p # l) = (if fst p = k then hm_remove k l else p # hm_remove k l)"
  by (simp add: hm_remove_def)

lemma hm_remove_Nil [simp]: "hm_remove k [] = []"
  by (simp add: hm_remove_def)

lemma held_beforeI:
  "hm_ok l \<Longrightarrow> l = pre @ (k, v, t) # post \<Longrightarrow> fst ` set post \<subseteq> K \<Longrightarrow> held_before k v t K l"
  by (auto simp: held_before_def)

lemma hm_ok_tl: "hm_ok l \<Longrightarrow> hm_ok (tl l)"
  by (cases l) (simp_all add: hm_ok_def)

lemma hm_ok_snoc: "hm_ok l \<Longrightarrow> hm_ok (hm_remove k l @ [(k, x)])"
  by (auto simp: hm_ok_def hm_remove_def intro: distinct_map_filterI)

lemma held_before_get:
  assumes "held_before k v t K l" and "k' \<in> K" and "k \<notin> K"
  shows "held_before k v t K (snd (lru_get ttl_ns now k' l))"
proof -
  obtain pre post where l: "l = pre @ (k, v, t) # post" "fst ` set post \<subseteq> K" and ok: "hm_ok l"
    using assms(1) by (auto simp: held_before_def)
  have r: "hm_remove k' l = hm_remove k' pre @ (k, v, t) # hm_remove k' post"
    using assms(2,3) l(1) by (auto simp: hm_remove_Cons)
  have sub: "fst ` set (hm_remove k' post) \<subseteq> K" using l(2) by (auto simp: hmap)
  have "held_before k v t K (hm_remove k' l)"
    using hm_ok_remove [OF ok] r sub by (rule held_beforeI)
  moreover have "held_before k v t K (hm_remove k' l @ [(k', x)])" for x
  proof (rule held_beforeI)
    show "hm_ok (hm_remove k' l @ [(k', x)])" using ok by (rule hm_ok_snoc)
    show "hm_remove k' l @ [(k', x)] = hm_remove k' pre @ (k, v, t) # (hm_remove k' post @ [(k', x)])"
      using r by simp
    show "fst ` set (hm_remove k' post @ [(k', x)]) \<subseteq> K" using sub assms(2) by auto
  qed
  ultimately show ?thesis
    using assms(1) by (auto simp: lru_get_def split: option.splits)
qed

lemma held_before_tl:
  assumes held: "held_before k v t K l" and k': "k' \<in> K" "\<not> hm_contains l k'"
    and small: "finite K" "card K < n" and full: "length l \<ge> n"
  shows "held_before k v t K (tl l)"
proof -
  obtain pre post where l: "l = pre @ (k, v, t) # post" "fst ` set post \<subseteq> K" and ok: "hm_ok l"
    using held by (auto simp: held_before_def)
  have "pre \<noteq> []"
  proof
    assume "pre = []"
    then have "distinct (map fst post)" using ok l(1) by (simp add: hm_ok_def)
    then have "length post = card (fst ` set post)"
      by (metis distinct_card length_map list.set_map)
    also have "\<dots> \<le> card (K - {k'})"
      using l k'(2) small(1) by (intro card_mono) (auto simp: hm_contains_iff)
    also have "\<dots> < card K" using k'(1) small(1) by (rule card_Diff1_less [rotated])
    finally show False using \<open>pre = []\<close> l(1) small(2) full by simp
  qed
  then obtain x pre' where "pre = x # pre'" by (cases pre) auto
  with l ok show ?thesis by (auto simp: held_before_def hm_ok_def)
qed

lemma held_before_set:
  assumes "held_before k v t K l" and "k' \<in> K" and "k \<notin> K" and "finite K" and "card K < n"
  shows "held_before k v t K (lru_set n now k' w l)"
proof -
  let ?l = "if \<not> hm_contains l k' \<and> length l \<ge> n then tl l else l"
  have "held_before k v t K ?l"
    using assms held_before_tl [OF assms(1,2) _ assms(4,5)] by simp
  then obtain pre post where l: "?l = pre @ (k, v, t) # post" "fst ` set post \<subseteq> K" and ok: "hm_ok ?l"
    by (auto simp: held_before_def)
  show ?thesis
    unfolding lru_set_def
  proof (rule held_beforeI)
    show "hm_ok (hm_remove k' ?l @ [(k', w, now)])" using ok by (rule hm_ok_snoc)
    show "hm_remove k' ?l @ [(k', w, now)] =
        hm_remove k' pre @ (k, v, t) # (hm_remove k' post @ [(k', w, now)])"
      using assms(2,3) by (subst l(1)) (auto simp: hm_remove_Cons)
    show "fst ` set (hm_remove k' post @ [(k', w, now)]) \<subseteq> K"
      using l(2) assms(2) by (auto simp: hmap)
  qed
qed

text \<open>The keys a history without \<open>clear\<close> touches.\<close>

fun op_key :: "(string \<Rightarrow> string list option) \<Rightarrow> 'v cache_op \<Rightarrow> string option" where
  "op_key p (Get now q) = Some (normalize_query p q)"
| "op_key p (Set now q v) = Some (normalize_query p q)"
| "op_key p Clear = None"

definition working_set :: "(string \<Rightarrow> string list option) \<Rightarrow> 'v cache_op list \<Rightarrow> string set" where
  "working_set p ops = {k. Some k \<in> op_key p ` set ops}"

lemma finite_working_set [simp]: "finite (working_set p ops)"
proof (rule finite_subset)
  show "working_set p ops \<subseteq> (\<lambda>x. the (op_key p x)) ` set ops"
    unfolding working_set_def by (auto simp: image_iff) (metis option.sel)
qed simp

lemma held_before_run:
  assumes "held_before k v t K l" and "k \<notin> K" and "finite K" and "card K < n"
    and "\<forall>x \<in> set ops. \<exists>k' \<in> K. op_key p x = Some k'"
  shows "held_before k v t K (foldl (lru_step p n ttl_ns) l ops)"
  using assms(1,5)
proof (induction ops arbitrary: l)
  case Nil
  then show ?case by simp
next
  case (Cons x xs)
  then have "held_before k v t K (lru_step p n ttl_ns l x)"
    using assms(2-4) by (cases x) (auto intro: held_before_get held_before_set)
  with Cons show ?case by simp
qed

lemma held_before_hit:
  assumes "held_before k v t K l" and "now - t \<le> ttl_ns"
  shows "fst (lru_get ttl_ns now k l) = Some v"
proof -
  have "hm_get l k = Some (v, t)"
    using assms(1) by (auto simp: held_before_def hm_get_iff)
  then show ?thesis using assms(2) by (simp add: lru_get_def)
qed

lemma held_before_set_new:
  assumes "hm_ok l"
  shows "held_before k v now K (lru_set n now k v l)"
  unfolding lru_set_def
proof (rule held_beforeI [where post = "[]"])
  show "hm_ok (hm_remove k (if \<not> hm_contains l k \<and> length l \<ge> n then tl l else l) @ [(k, v, now)])"
    using assms by (auto intro!: hm_ok_snoc hm_ok_tl)
qed simp_all

subsection \<open>Histories\<close>

text \<open>The value a history leaves under a key, if evictions are ignored: the latest \<open>set\<close>
  since the last \<open>clear\<close>, with the clock reading of that \<open>set\<close>.\<close>

fun latest_step ::
  "(string \<Rightarrow> string list option) \<Rightarrow> string \<Rightarrow> ('v \<times> nat) option \<Rightarrow> 'v cache_op \<Rightarrow> ('v \<times> nat) option"
where
  "latest_step p k acc (Get now q) = acc"
| "latest_step p k acc (Set now q v) = (if normalize_query p q = k then Some (v, now) else acc)"
| "latest_step p k acc Clear = None"

definition latest :: "(string \<Rightarrow> string list option) \<Rightarrow> string \<Rightarrow> 'v cache_op list \<Rightarrow> ('v \<times> nat) option" where
  "latest p k ops = foldl (latest_step p k) None ops"

text \<open>What is cached under a key, fresh or not.\<close>

definition content :: "'v cache \<Rightarrow> string \<Rightarrow> ('v \<times> nat) option" where
  "content c k = map_option (\<lambda>e. (batches e, inserted_at e)) (hm_get (store (inner c)) k)"

lemma content_get_key:
  "content (snd (get_key c now k)) k' = Some x \<Longrightarrow> content c k' = Some x"
  by (auto simp: content_def get_key_store hmap split: option.splits if_splits)

lemma content_set_key:
  "content (set_key c now k b) k' = Some x \<Longrightarrow>
   if k' = k then x = (b, now) else content c k' = Some x"
  by (auto simp: content_def set_key_store hmap Let_def split: option.splits if_splits)

lemma content_clear [simp]: "content (cache_clear c) k = None"
  by (simp add: content_def)

lemma get_key_hit:
  "fst (get_key c now k) = Some v \<Longrightarrow> \<exists>t. content c k = Some (v, t) \<and> now - t \<le> ttl c"
  by (auto simp: get_key_result content_def split: option.splits if_splits)

lemma content_step:
  "content (cache_step p c x) k = Some y \<Longrightarrow> latest_step p k (content c k) x = Some y"
  by (cases x) (auto simp: cache_op_defs dest: content_get_key content_set_key split: if_splits)

lemma latest_step_mono:
  "(\<And>y. a = Some y \<Longrightarrow> b = Some y) \<Longrightarrow> latest_step p k a x = Some y \<Longrightarrow> latest_step p k b x = Some y"
  by (cases x) (auto split: if_splits)

lemma content_run:
  "(\<And>y. content c k = Some y \<Longrightarrow> a = Some y) \<Longrightarrow>
   content (cache_run p c ops) k = Some y \<Longrightarrow> foldl (latest_step p k) a ops = Some y"
proof (induction ops arbitrary: c a)
  case Nil
  then show ?case by simp
next
  case (Cons x xs)
  have "content (cache_step p c x) k = Some z \<Longrightarrow> latest_step p k a x = Some z" for z
    using content_step [of p c x k z] latest_step_mono [of "content c k" a p k x z] Cons.prems(1)
    by blast
  from Cons.IH [OF this] Cons.prems(2) show ?case by simp
qed

fun is_get :: "'v cache_op \<Rightarrow> bool" where
  "is_get (Get now q) = True"
| "is_get _ = False"

lemma counters_step:
  "hits (inner (cache_step p c x)) + misses (inner (cache_step p c x)) =
   hits (inner c) + misses (inner c) + (if is_get x then 1 else 0)"
  by (cases x) (auto simp: cache_op_defs set_key_parts get_key_def Let_def split: lookup.splits)

lemma counters_run:
  "hits (inner (cache_run p c xs)) + misses (inner (cache_run p c xs)) =
   hits (inner c) + misses (inner c) + of_nat (length (filter is_get xs))"
  by (induction xs arbitrary: c) (simp_all add: counters_step)

subsection \<open>The contract the other components use\<close>

text \<open>
  What the server and the CDC listener rely on: a hit is cached content, \<open>get\<close> adds no
  content, \<open>set\<close> adds only its own value, \<open>clear\<close> removes everything, and \<open>is_empty\<close> says
  that there is none. Clients may therefore carry any property of the cached values from
  call to call, whatever the eviction policy does.
\<close>

locale result_cache =
  fixes get :: "'c \<Rightarrow> nat \<Rightarrow> string \<Rightarrow> 'v option \<times> 'c"
    and set :: "'c \<Rightarrow> nat \<Rightarrow> string \<Rightarrow> 'v \<Rightarrow> 'c"
    and clear :: "'c \<Rightarrow> 'c"
    and is_empty :: "'c \<Rightarrow> bool"
    and key :: "string \<Rightarrow> string"
    and cached :: "'c \<Rightarrow> string \<Rightarrow> 'v option"
  assumes get_hit: "fst (get c now q) = Some v \<Longrightarrow> cached c (key q) = Some v"
    and get_cached: "cached (snd (get c now q)) k = Some v \<Longrightarrow> cached c k = Some v"
    and set_cached: "cached (set c now q v) k = Some w \<Longrightarrow> k = key q \<and> w = v \<or> cached c k = Some w"
    and clear_cached: "cached (clear c) k = None"
    and is_empty_cached: "is_empty c \<Longrightarrow> cached c k = None"
begin

definition all_cached :: "(string \<Rightarrow> 'v \<Rightarrow> bool) \<Rightarrow> 'c \<Rightarrow> bool" where
  "all_cached P c \<longleftrightarrow> (\<forall>k v. cached c k = Some v \<longrightarrow> P k v)"

lemma all_cached_get: "all_cached P c \<Longrightarrow> all_cached P (snd (get c now q))"
  by (auto simp: all_cached_def dest: get_cached)

lemma all_cached_set: "all_cached P c \<Longrightarrow> P (key q) v \<Longrightarrow> all_cached P (set c now q v)"
  by (auto simp: all_cached_def dest: set_cached)

lemma all_cached_clear: "all_cached P (clear c)"
  by (simp add: all_cached_def clear_cached)

lemma all_cached_empty: "is_empty c \<Longrightarrow> all_cached P c"
  by (simp add: all_cached_def is_empty_cached)

lemma all_cached_hit: "all_cached P c \<Longrightarrow> fst (get c now q) = Some v \<Longrightarrow> P (key q) v"
  by (auto simp: all_cached_def dest: get_hit)

lemma all_cached_mono: "all_cached P c \<Longrightarrow> (\<And>k v. P k v \<Longrightarrow> Q k v) \<Longrightarrow> all_cached Q c"
  by (auto simp: all_cached_def)

end

definition cached_value :: "'v cache \<Rightarrow> string \<Rightarrow> 'v option" where
  "cached_value c k = map_option fst (content c k)"

interpretation rc: result_cache
  "cache_get p" "cache_set p" cache_clear cache_is_empty "normalize_query p" cached_value
  for p :: "string \<Rightarrow> string list option"
proof
  fix c :: "'v cache" and now q v w k
  show "fst (cache_get p c now q) = Some v \<Longrightarrow> cached_value c (normalize_query p q) = Some v"
    by (auto simp: cached_value_def cache_op_defs dest: get_key_hit)
  show "cached_value (snd (cache_get p c now q)) k = Some v \<Longrightarrow> cached_value c k = Some v"
    by (auto simp: cached_value_def cache_op_defs dest: content_get_key)
  show "cached_value (cache_set p c now q v) k = Some w \<Longrightarrow>
      k = normalize_query p q \<and> w = v \<or> cached_value c k = Some w"
    by (auto simp: cached_value_def cache_op_defs dest!: content_set_key split: if_splits)
  show "cached_value (cache_clear c) k = None"
    by (simp add: cached_value_def)
  show "cache_is_empty c \<Longrightarrow> cached_value c k = None"
    by (simp add: cached_value_def content_def cache_is_empty_def cache_len_def)
qed

subsection \<open>Properties\<close>

text \<open>A concrete cache for the witnesses: capacity 2, time to live 60, nothing parses as SQL.\<close>

definition small_cache :: "nat cache" where
  "small_cache = \<lparr>inner = \<lparr>store = [], tick = 0, hits = 0, misses = 0, evictions_lru = 0,
     evictions_ttl = 0\<rparr>, max_entries = 2, ttl = 60\<rparr>"

lemma small_cache_new: "with_clock 2 60 = Inr small_cache"
  by (simp add: with_clock_def small_cache_def)

definition no_sql :: "string \<Rightarrow> string list option" where
  "no_sql q = None"

text \<open>C1: from creation, and for any history of fewer than 2^64 calls, the cache is the
  least-recently-used list: its entries in order of use are the specification's list, and the
  next lookup answers what the specification answers.\<close>

theorem cache_refines_lru:
  assumes "with_clock n t = Inr c" and "length ops + 1 < 2 ^ 64"
  shows "recency (cache_run p c ops) = foldl (lru_step p n t) [] ops \<and>
         fst (cache_get p (cache_run p c ops) now q) =
         fst (lru_get t now (normalize_query p q) (foldl (lru_step p n t) [] ops))"
proof -
  have new: "cache_ok c" "ticks_ok c" "tick (inner c) = 0"
    using cache_ok_new [OF assms(1)] by simp_all
  have lim: "max_entries c = n" "ttl c = t" "recency c = []"
    using assms(1) by (auto simp: with_clock_def recency_def by_use_def split: if_splits)
  note run = run_refines [OF new(1,2), of ops p]
  have rec: "recency (cache_run p c ops) = foldl (lru_step p n t) [] ops"
    using run assms(2) new(3) lim by simp
  have "tick (inner (cache_run p c ops)) \<noteq> - 1"
    using run assms(2) new(3) by (intro tick_not_max) simp
  with run assms(2) new(3) cache_ok_run [OF new(1)] show ?thesis
    by (simp add: cache_op_defs recency_get(2) rec cache_run_limits lim)
qed

theorem cache_refines_lru_witness:
  "recency (cache_run no_sql small_cache [Set 0 ''a'' 1, Set 1 ''b'' 2, Get 2 ''a'', Set 3 ''c'' 3]) =
     [(''a'', 1, 0), (''c'', 3, 3)]"
proof -
  let ?ops = "[Set 0 ''a'' 1, Set 1 ''b'' 2, Get 2 ''a'', Set 3 ''c'' 3] :: nat cache_op list"
  have "foldl (lru_step no_sql 2 60) [] ?ops = [(''a'', 1, 0), (''c'', 3, 3)]"
    by code_simp
  then show ?thesis using cache_refines_lru [OF small_cache_new, of ?ops no_sql] by simp
qed

text \<open>C2: a stored result stays retrievable while it is fresh, as long as the calls in between
  touch fewer distinct other keys than the capacity and no change event clears the cache.\<close>

theorem working_set_retained:
  assumes "cache_ok c" and "ticks_ok c"
    and "unat (tick (inner c)) + length ops + 2 < 2 ^ 64"
    and "Clear \<notin> set ops"
    and "normalize_query p q \<notin> working_set p ops"
    and "card (working_set p ops) < max_entries c"
    and "now - t0 \<le> ttl c"
  shows "fst (cache_get p (cache_run p (cache_set p c t0 q v) ops) now q) = Some v"
proof -
  let ?k = "normalize_query p q" and ?K = "working_set p ops"
  let ?c = "cache_set p c t0 q v"
  have t: "unat (tick (inner c)) + 1 < 2 ^ 64" using assms(3) by simp
  have c: "?c = cache_step p c (Set t0 q v)" by simp
  have "unat (tick (inner ?c)) \<le> Suc (unat (tick (inner c)))"
    unfolding c by (rule tick_step_le [OF t])
  then have t': "unat (tick (inner ?c)) + length ops < 2 ^ 64" "unat (tick (inner ?c)) + length ops + 1 < 2 ^ 64"
    using assms(3) by simp_all
  have ok: "cache_ok ?c" "ticks_ok ?c"
    unfolding c using assms(1,2) t by (simp_all only: cache_ok_step step_refines)
  note run = run_refines [OF ok t'(1), of p]
  have "recency ?c = lru_set (max_entries c) t0 ?k v (recency c)"
    using step_refines(2) [OF assms(1,2) t, of p "Set t0 q v"] by simp
  moreover have "hm_ok (recency c)"
    using assms(1) by (simp add: recency_def cache_ok_def hm_ok_def strip_def comp_def
        by_use_def distinct_map)
  ultimately have "held_before ?k v t0 ?K (recency ?c)"
    by (simp add: held_before_set_new)
  moreover have "\<forall>x \<in> set ops. \<exists>k' \<in> ?K. op_key p x = Some k'"
  proof
    fix x assume "x \<in> set ops"
    then have "x \<noteq> Clear" using assms(4) by auto
    then obtain k' where "op_key p x = Some k'" by (cases "op_key p x"; cases x) auto
    with \<open>x \<in> set ops\<close> show "\<exists>k' \<in> ?K. op_key p x = Some k'"
      by (auto simp: working_set_def intro!: bexI [of _ k'] rev_image_eqI [of x])
  qed
  ultimately have "held_before ?k v t0 ?K (recency (cache_run p ?c ops))"
    using run assms(5,6) held_before_run [of ?k v t0 ?K]
    by (simp add: cache_step_limits [of p c "Set t0 q v", simplified])
  moreover have "tick (inner (cache_run p ?c ops)) \<noteq> - 1"
    using run t'(2) by (intro tick_not_max) simp
  ultimately show ?thesis
    using held_before_hit [of ?k v t0 ?K _ now "ttl c"] assms(7) run cache_ok_run [OF ok(1)]
      cache_step_limits [of p c "Set t0 q v"]
    by (simp add: cache_op_defs recency_get(2) cache_run_limits)
qed

theorem working_set_retained_witness:
  "fst (cache_get no_sql (cache_run no_sql (cache_set no_sql small_cache 0 ''q'' 7)
     [Set 1 ''b'' 2, Get 2 ''b'', Set 3 ''b'' 3]) 50 ''q'') = Some 7"
proof (rule working_set_retained)
  have "working_set no_sql [Set 1 ''b'' 2, Get 2 ''b'', Set 3 ''b'' (3::nat)] = {normalize_query no_sql ''b''}"
    by (auto simp: working_set_def)
  moreover have "normalize_query no_sql ''q'' = ''q''" "normalize_query no_sql ''b'' = ''b''"
    by code_simp+
  ultimately show
    "normalize_query no_sql ''q'' \<notin> working_set no_sql [Set 1 ''b'' 2, Get 2 ''b'', Set 3 ''b'' (3::nat)]"
    "card (working_set no_sql [Set 1 ''b'' 2, Get 2 ''b'', Set 3 ''b'' (3::nat)]) < max_entries small_cache"
    by (simp_all add: small_cache_def)
qed (use cache_ok_new [OF small_cache_new] in \<open>simp_all add: small_cache_def\<close>)

text \<open>C3: a hit is never invented or stale beyond the time to live: it is the latest value
  stored under the same key since the last clear, stored at most \<open>ttl\<close> before the lookup.
  This holds however long the cache has run, across counter wrap-around.\<close>

theorem hit_is_latest:
  assumes "with_clock n t = Inr c"
    and "fst (cache_get p (cache_run p c ops) now q) = Some v"
  shows "\<exists>t0. latest p (normalize_query p q) ops = Some (v, t0) \<and> now - t0 \<le> t"
proof -
  have c: "content c k = None" "ttl c = t" for k
    using assms(1) by (auto simp: with_clock_def content_def split: if_splits)
  from assms(2) obtain t0 where "content (cache_run p c ops) (normalize_query p q) = Some (v, t0)"
      and "now - t0 \<le> t"
    using get_key_hit [of "cache_run p c ops" now "normalize_query p q" v]
    by (auto simp: cache_op_defs cache_run_limits c(2))
  then show ?thesis
    using content_run [of c "normalize_query p q" None p ops] c(1) by (auto simp: latest_def)
qed

theorem hit_is_latest_witness:
  "\<exists>t0. latest no_sql (normalize_query no_sql ''q;'') [Set 3 ''q'' (1::nat), Get 4 ''r''] = Some (1, t0) \<and> 50 - t0 \<le> 60"
  by (rule hit_is_latest [OF small_cache_new]) code_simp

text \<open>C8: after any history the cache holds at most its capacity, its reported size is the
  number of its entries, and hits and misses together count the lookups (modulo 2^64).\<close>

theorem cache_bounded_and_counted:
  assumes "with_clock n t = Inr c"
  shows "cache_len (cache_run p c ops) \<le> n \<and>
     s_entries (stats (cache_run p c ops)) = cache_len (cache_run p c ops) \<and>
     s_hits (stats (cache_run p c ops)) + s_misses (stats (cache_run p c ops)) =
       of_nat (length (filter is_get ops))"
proof -
  have "max_entries c = n" "hits (inner c) = 0" "misses (inner c) = 0"
    using assms by (auto simp: with_clock_def split: if_splits)
  then show ?thesis
    using cache_ok_run [of c p ops] cache_ok_new [OF assms] counters_run [of p c ops]
    by (simp add: cache_ok_def cache_len_def stats_def cache_run_limits)
qed

theorem cache_bounded_and_counted_witness:
  "cache_len (cache_run no_sql small_cache [Set 0 ''a'' 1, Get 1 ''a'', Get 2 ''b'', Set 3 ''b'' 2, Set 4 ''c'' 3]) \<le> 2"
  using cache_bounded_and_counted [OF small_cache_new] by blast

text \<open>C9: the hash map's iteration order never shows: two caches with the same entries in any
  order answer alike and, after a \<open>set\<close>, hold the same list of entries in order of use. So the
  eviction scan's tie-breaking and the random hasher are unobservable.\<close>

theorem iteration_order_irrelevant:
  assumes "cache_ok c" and "ticks_ok c" and "tick (inner c) \<noteq> - 1"
    and "set m = set (store (inner c))" and "length m = length (store (inner c))"
  shows "(let c' = c\<lparr>inner := (inner c)\<lparr>store := m\<rparr>\<rparr>
     in recency (cache_set p c' now q v) = recency (cache_set p c now q v) \<and>
        fst (cache_get p c' now q) = fst (cache_get p c now q) \<and>
        recency (snd (cache_get p c' now q)) = recency (snd (cache_get p c now q)))"
proof -
  define c' where "c' = c\<lparr>inner := (inner c)\<lparr>store := m\<rparr>\<rparr>"
  let ?m = "store (inner c)"
  have "distinct ?m" "inj_on fst (set ?m)" "inj_on used_at (set ?m)"
    using assms(1,2) by (simp_all add: cache_ok_def hm_ok_def ticks_ok_def distinct_map)
  moreover from this have "distinct m"
    using assms(4,5) by (metis card_distinct distinct_card)
  ultimately have ok: "cache_ok c'" "ticks_ok c'"
    using assms by (simp_all add: c'_def cache_ok_def hm_ok_def ticks_ok_def distinct_map)
  have "by_use m = by_use ?m"
    unfolding by_use_def
  proof (rule map_sorted_distinct_set_unique [where f = used_at])
    show "inj_on used_at (set (sort_key used_at m) \<union> set (sort_key used_at ?m))"
      using assms(2,4) by (simp add: ticks_ok_def distinct_map)
  qed (use ok assms in \<open>auto simp: c'_def ticks_ok_def distinct_map\<close>)
  then have "recency c' = recency c" by (simp add: recency_def c'_def)
  moreover have "tick (inner c') = tick (inner c)" "ttl c' = ttl c" "max_entries c' = max_entries c"
    by (simp_all add: c'_def)
  ultimately show ?thesis
    using recency_set [OF ok] recency_set [OF assms(1,2)] recency_get [OF ok] recency_get [OF assms(1,2)]
      assms(3)
    by (simp add: c'_def [symmetric] Let_def cache_op_defs)
qed

definition two_entries :: "nat cache" where
  "two_entries = cache_set no_sql (cache_set no_sql small_cache 0 ''a'' 1) 1 ''b'' 2"

theorem iteration_order_irrelevant_witness:
  "recency (cache_set no_sql (two_entries\<lparr>inner := (inner two_entries)\<lparr>store := rev (store (inner two_entries))\<rparr>\<rparr>) 2 ''c'' 3) =
   recency (cache_set no_sql two_entries 2 ''c'' 3)"
proof -
  have two: "two_entries = cache_run no_sql small_cache [Set 0 ''a'' 1, Set 1 ''b'' 2]"
    by (simp add: two_entries_def)
  have new: "cache_ok small_cache" "ticks_ok small_cache" "tick (inner small_cache) = 0"
    using cache_ok_new [OF small_cache_new] by simp_all
  have ok: "cache_ok two_entries" "ticks_ok two_entries"
    using cache_ok_run [OF new(1), of no_sql "[Set 0 ''a'' 1, Set 1 ''b'' 2]"] new(3)
      run_refines [OF new(1,2), of "[Set 0 ''a'' 1, Set 1 ''b'' 2]" no_sql]
    unfolding two by simp_all
  have "tick (inner two_entries) \<noteq> - 1"
    by (simp add: two_entries_def cache_op_defs set_key_parts new(3))
  from iteration_order_irrelevant [OF ok this, of "rev (store (inner two_entries))" no_sql 2 "''c''" 3]
  show ?thesis by (simp add: Let_def)
qed

text \<open>looking up an entry older than the time to live answers nothing, removes the entry
  and counts one expiry and one miss; looking up a fresh one leaves every entry's value and
  insertion time as they were (a hit never extends an entry's life).\<close>

theorem get_expiry:
  assumes "content c (normalize_query p q) = Some (v, t0)"
  shows "if now - t0 \<le> ttl c
     then fst (cache_get p c now q) = Some v \<and> content (snd (cache_get p c now q)) = content c \<and>
          hits (inner (snd (cache_get p c now q))) = hits (inner c) + 1
     else fst (cache_get p c now q) = None \<and>
          content (snd (cache_get p c now q)) = (content c)(normalize_query p q := None) \<and>
          evictions_ttl (inner (snd (cache_get p c now q))) = evictions_ttl (inner c) + 1 \<and>
          misses (inner (snd (cache_get p c now q))) = misses (inner c) + 1"
proof -
  obtain e where e: "hm_get (store (inner c)) (normalize_query p q) = Some e"
      "v = batches e" "t0 = inserted_at e"
    using assms by (auto simp: content_def)
  show ?thesis
  proof (cases "now - t0 \<le> ttl c")
    case True
    with e show ?thesis
      by (auto simp: cache_get_def get_key_def lookup_entry_def Let_def content_def hmap)
  next
    case False
    with e show ?thesis
      by (auto simp: cache_get_def get_key_def lookup_entry_def Let_def content_def hmap)
  qed
qed

theorem get_expiry_witness:
  "fst (cache_get no_sql two_entries 100 ''a'') = None"
proof -
  have "content two_entries (normalize_query no_sql ''a'') = Some (1, 0)" "ttl two_entries = 60"
    by code_simp+
  from get_expiry [OF this(1), of 100] this(2) show ?thesis by simp
qed

end
