(* ===== verification/Cdc_Sync.thy ===== *)
theory Cdc_Sync
  imports Cache_Spec
begin

text \<open>
  \<open>src/cdc_sync.rs\<close>: the change-data listener.

  The file system is what one \<open>sync\<close> sees of it: whether the path is a directory, the result
  of \<open>read_dir\<close> (\<open>None\<close> for an error; each entry is a path or, as \<open>None\<close>, an entry that
  failed and that \<open>flatten\<close> drops), and the contents of the files it can read. \<open>PathBuf\<close>s
  are their textual form. Log calls are left out. The set of processed paths is a list
  without repetitions.
\<close>

record fs =
  is_dir :: "string \<Rightarrow> bool"
  read_dir :: "string \<Rightarrow> string option list option"
  read_to_string :: "string \<Rightarrow> string option"

record cdc_listener =
  iceberg_path :: string
  processed :: "string list"

subsection \<open>Paths\<close>

text \<open>\<open>Path::extension\<close>: the part of the file name after its last dot, unless there is no
  dot, the only dot is the first character, or the name is two dots.\<close>

definition file_name :: "string \<Rightarrow> string" where
  "file_name path = last (split_char (CHR ''/'') path)"

definition extension :: "string \<Rightarrow> string option" where
  "extension path =
     (let name = file_name path; parts = split_char (CHR ''.'') name
      in if name = ''..'' \<or> length parts < 2 \<or> join ''.'' (butlast parts) = [] then None
         else Some (last parts))"

definition is_json :: "string \<Rightarrow> bool" where
  "is_json path \<longleftrightarrow> extension path = Some ''json''"

subsection \<open>Operations\<close>

definition cdc_new :: "string \<Rightarrow> cdc_listener" where
  "cdc_new path = \<lparr>iceberg_path = path, processed = []\<rparr>"

text \<open>The loop of \<open>read_new_local_events\<close> over the directory entries, with its two mutable
  variables.\<close>

fun read_entries ::
  "(string \<Rightarrow> string option) \<Rightarrow> string option list \<Rightarrow> string list \<Rightarrow> string list \<Rightarrow>
   string list \<times> string list" where
  "read_entries rd [] seen events = (seen, events)"
| "read_entries rd (None # es) seen events = read_entries rd es seen events"
| "read_entries rd (Some path # es) seen events =
     (if is_json path \<and> path \<notin> set seen
      then (case rd path of
              Some body \<Rightarrow> read_entries rd es (hs_insert path seen) (events @ [body])
            | None \<Rightarrow> read_entries rd es seen events)
      else read_entries rd es seen events)"

definition read_new_local_events :: "fs \<Rightarrow> string \<Rightarrow> cdc_listener \<Rightarrow> string list \<times> cdc_listener" where
  "read_new_local_events f dir l =
     (case read_dir f dir of
        None \<Rightarrow> ([], l)
      | Some es \<Rightarrow>
          (case read_entries (read_to_string f) es (processed l) [] of
             (seen, events) \<Rightarrow> (events, l\<lparr>processed := seen\<rparr>)))"

definition sync :: "fs \<Rightarrow> cdc_listener \<Rightarrow> 'v cache \<Rightarrow> nat \<times> cdc_listener \<times> 'v cache" where
  "sync f l c =
     (if \<not> is_dir f (iceberg_path l) then (0, l, c)
      else (case read_new_local_events f (iceberg_path l) l of
              (events, l') \<Rightarrow>
                (length events, l',
                 if events = [] then c
                 else if \<not> cache_is_empty c then cache_clear c else c)))"

text \<open>The body of the polling task, once per tick: the ticks' views of the file system are a
  list. Between two ticks other tasks use the cache: \<open>work\<close> is what they do to it.\<close>

fun polling ::
  "(nat \<Rightarrow> 'v cache \<Rightarrow> 'v cache) \<Rightarrow> nat \<Rightarrow> fs list \<Rightarrow> cdc_listener \<Rightarrow> 'v cache \<Rightarrow>
   nat list \<times> cdc_listener \<times> 'v cache" where
  "polling work i [] l c = ([], l, c)"
| "polling work i (f # views) l c =
     (case sync f l (work i c) of
        (n, l', c') \<Rightarrow> (case polling work (Suc i) views l' c' of (ns, l'', c'') \<Rightarrow> (n # ns, l'', c'')))"

subsection \<open>The events a directory holds\<close>

definition event_files :: "(string \<Rightarrow> string option) \<Rightarrow> string option list \<Rightarrow> string set" where
  "event_files rd es = {p. Some p \<in> set es \<and> is_json p \<and> rd p \<noteq> None}"

lemma event_files_simps [simp]:
  "event_files rd [] = {}"
  "event_files rd (None # es) = event_files rd es"
  "event_files rd (Some p # es) =
     (if is_json p \<and> rd p \<noteq> None then insert p (event_files rd es) else event_files rd es)"
  by (auto simp: event_files_def)

definition visible_events :: "fs \<Rightarrow> string \<Rightarrow> string set" where
  "visible_events f dir =
     (case read_dir f dir of
        Some es \<Rightarrow> if is_dir f dir then event_files (read_to_string f) es else {}
      | None \<Rightarrow> {})"

lemma read_entries_Some:
  "is_json path \<and> rd path = Some body \<and> path \<notin> set seen \<Longrightarrow>
   read_entries rd (Some path # es) seen events =
     read_entries rd es (hs_insert path seen) (events @ [body])"
  "\<not> is_json path \<or> rd path = None \<or> path \<in> set seen \<Longrightarrow>
   read_entries rd (Some path # es) seen events = read_entries rd es seen events"
  by (auto split: option.splits)

lemma read_entries_spec:
  "read_entries rd es seen events = (seen', events') \<Longrightarrow> distinct seen \<Longrightarrow>
   distinct seen' \<and> set seen' = set seen \<union> event_files rd es \<and>
   length seen' + length events = length seen + length events'"
proof (induction es arbitrary: seen events)
  case Nil
  then show ?case by simp
next
  case (Cons e es)
  show ?case
  proof (cases e)
    case None
    with Cons show ?thesis by simp
  next
    case (Some path)
    show ?thesis
    proof (cases "is_json path \<and> rd path \<noteq> None \<and> path \<notin> set seen")
      case True
      then obtain body where b: "is_json path \<and> rd path = Some body \<and> path \<notin> set seen" by blast
      have d: "distinct (hs_insert path seen)" using Cons.prems(2) by (simp add: hs_insert_def)
      have "read_entries rd es (hs_insert path seen) (events @ [body]) = (seen', events')"
        using Cons.prems(1) unfolding Some read_entries_Some(1) [where rd = rd, OF b] .
      from Cons.IH [OF this d] b Some show ?thesis by (auto simp: hs_insert_def)
    next
      case False
      then have b: "\<not> is_json path \<or> rd path = None \<or> path \<in> set seen" by blast
      have "read_entries rd es seen events = (seen', events')"
        using Cons.prems(1) unfolding Some read_entries_Some(2) [where rd = rd, OF b] .
      from Cons.IH [OF this Cons.prems(2)] b Some show ?thesis by auto
    qed
  qed
qed

lemma read_entries_events:
  "read_entries rd es seen events = (seen', events') \<Longrightarrow>
   length events \<le> length events' \<and> (length events' = length events \<longrightarrow> seen' = seen)"
proof (induction es arbitrary: seen events)
  case Nil
  then show ?case by simp
next
  case (Cons e es)
  show ?case
  proof (cases e)
    case None
    with Cons show ?thesis by simp
  next
    case (Some path)
    show ?thesis
    proof (cases "is_json path \<and> rd path \<noteq> None \<and> path \<notin> set seen")
      case True
      then obtain body where b: "is_json path \<and> rd path = Some body \<and> path \<notin> set seen" by blast
      have "read_entries rd es (hs_insert path seen) (events @ [body]) = (seen', events')"
        using Cons.prems(1) unfolding Some read_entries_Some(1) [where rd = rd, OF b] .
      from Cons.IH [OF this] show ?thesis by simp
    next
      case False
      then have b: "\<not> is_json path \<or> rd path = None \<or> path \<in> set seen" by blast
      have "read_entries rd es seen events = (seen', events')"
        using Cons.prems(1) unfolding Some read_entries_Some(2) [where rd = rd, OF b] .
      from Cons.IH [OF this] show ?thesis by simp
    qed
  qed
qed

text \<open>One \<open>sync\<close> adds exactly the readable event files it sees, and counts the new ones.\<close>

lemma sync_listener:
  assumes "sync f l c = (n, l', c')" and "distinct (processed l)"
  shows "distinct (processed l') \<and>
    set (processed l') = set (processed l) \<union> visible_events f (iceberg_path l) \<and>
    length (processed l') = length (processed l) + n \<and> iceberg_path l' = iceberg_path l"
proof (cases "is_dir f (iceberg_path l)")
  case True
  show ?thesis
  proof (cases "read_dir f (iceberg_path l)")
    case None
    with assms True show ?thesis
      by (simp add: sync_def read_new_local_events_def visible_events_def)
  next
    case (Some es)
    obtain seen events where r: "read_entries (read_to_string f) es (processed l) [] = (seen, events)"
      by (cases "read_entries (read_to_string f) es (processed l) []") auto
    from assms True Some r have "n = length events" "l' = l\<lparr>processed := seen\<rparr>"
      by (simp_all add: sync_def read_new_local_events_def)
    with read_entries_spec [OF r assms(2)] True Some show ?thesis
      by (simp add: visible_events_def)
  qed
next
  case False
  with assms show ?thesis by (auto simp: sync_def visible_events_def split: option.splits)
qed

lemma sync_cache:
  "sync f l c = (n, l', c') \<Longrightarrow>
   c' = (if n = 0 then c else if \<not> cache_is_empty c then cache_clear c else c)"
  by (auto simp: sync_def split: prod.splits if_splits)

lemma sync_quiet:
  assumes "sync f l c = (0, l', c')"
  shows "l' = l"
proof (cases "is_dir f (iceberg_path l)")
  case True
  show ?thesis
  proof (cases "read_dir f (iceberg_path l)")
    case None
    with assms True show ?thesis by (simp add: sync_def read_new_local_events_def)
  next
    case (Some es)
    obtain seen events where r: "read_entries (read_to_string f) es (processed l) [] = (seen, events)"
      by (cases "read_entries (read_to_string f) es (processed l) []") auto
    from assms True Some r have "events = []" "l' = l\<lparr>processed := seen\<rparr>"
      by (auto simp: sync_def read_new_local_events_def split: if_splits)
    with read_entries_events [OF r] show ?thesis by simp
  qed
next
  case False
  with assms show ?thesis by (simp add: sync_def)
qed

lemma sync_count:
  assumes "sync f l c = (n, l', c')" and "distinct (processed l)"
  shows "n = card (visible_events f (iceberg_path l) - set (processed l))"
proof -
  have L: "distinct (processed l')" "length (processed l') = length (processed l) + n"
    "set (processed l') = set (processed l) \<union> visible_events f (iceberg_path l)"
    using sync_listener [OF assms] by simp_all
  have "finite (visible_events f (iceberg_path l))"
    using L(3) by (metis finite_Un finite_set)
  moreover have "card (set (processed l')) = length (processed l) + n"
    using L(1,2) by (simp add: distinct_card)
  moreover have "card (set (processed l')) =
      card (set (processed l)) + card (visible_events f (iceberg_path l) - set (processed l))"
    using L(3) \<open>finite (visible_events f (iceberg_path l))\<close>
    by (metis Un_Diff_cancel card_Un_disjoint Diff_disjoint finite_Diff finite_set)
  ultimately show ?thesis using assms(2) by (simp add: distinct_card)
qed

lemma sync_flushes:
  assumes "sync f l c = (n, l', c')" and "n \<noteq> 0"
  shows "rc.all_cached (\<lambda>k v. False) c'"
  using sync_cache [OF assms(1)] assms(2) rc.all_cached_clear [of "\<lambda>k v. False" c]
    rc.all_cached_empty [of c "\<lambda>k v. False"]
  by (simp split: if_splits)

lemma polling_listener:
  "polling work i views l c = (ns, l', c') \<Longrightarrow> distinct (processed l) \<Longrightarrow>
   distinct (processed l') \<and> length ns = length views \<and>
   set (processed l') = set (processed l) \<union> (\<Union>f \<in> set views. visible_events f (iceberg_path l)) \<and>
   length (processed l') = length (processed l) + sum_list ns"
proof (induction views arbitrary: i l c ns l' c')
  case Nil
  then show ?case by auto
next
  case (Cons f views)
  obtain n l1 c1 where s: "sync f l (work i c) = (n, l1, c1)" by (cases "sync f l (work i c)") auto
  obtain ns1 l2 c2 where p: "polling work (Suc i) views l1 c1 = (ns1, l2, c2)"
    by (cases "polling work (Suc i) views l1 c1") auto
  from Cons.prems(1) s p have r: "ns = n # ns1" "l' = l2" by auto
  note L = sync_listener [OF s Cons.prems(2)]
  from Cons.IH [OF p] L show ?case by (auto simp: r)
qed

subsection \<open>Properties\<close>

text \<open>A directory for the witnesses: two event files, an editor's backup, a file that cannot be
  read and an entry that failed.\<close>

definition cdc_dir :: fs where
  "cdc_dir = \<lparr>is_dir = (\<lambda>p. p = ''cdc''),
     read_dir = (\<lambda>p. Some [Some ''cdc/1.json'', None, Some ''cdc/1.json.bak'',
                           Some ''cdc/2.json'', Some ''cdc/3.json'']),
     read_to_string = (\<lambda>p. if p = ''cdc/2.json'' then None else Some ''{}'')\<rparr>"

text \<open>C4: one \<open>sync\<close> returns the number of event files that are readable now and were never
  processed before, and records exactly those. When there is one, no query is a hit on the cache
  it leaves; when there is none, neither the cache nor the listener changes. A second \<open>sync\<close>
  over the same files finds nothing.\<close>

theorem sync_effect:
  assumes "sync f l c = (n, l', c')" and "distinct (processed l)"
  shows "n = card (visible_events f (iceberg_path l) - set (processed l)) \<and>
    set (processed l') = set (processed l) \<union> visible_events f (iceberg_path l) \<and>
    (if n = 0 then l' = l \<and> c' = c else \<forall>now q. fst (cache_get p c' now q) = None) \<and>
    sync f l' c2 = (0, l', c2)"
proof -
  note L = sync_listener [OF assms]
  have "\<forall>now q. fst (cache_get p c' now q) = None" if "n \<noteq> 0"
    using rc.all_cached_hit [OF sync_flushes [OF assms(1) that], where p = p] by (auto intro: option.exhaust)
  moreover obtain m l2 c3 where s: "sync f l' c2 = (m, l2, c3)" by (cases "sync f l' c2") auto
  moreover have "m = 0"
    using sync_count [OF s] L by (simp add: Diff_eq_empty_iff [THEN iffD2])
  ultimately show ?thesis
    using sync_count [OF assms] L sync_quiet [of f l c l' c'] sync_cache [OF assms(1)] assms(1)
      sync_quiet [of f l' c2 l2 c3] sync_cache [OF s] by auto
qed

lemma cdc_dir_sync:
  "sync cdc_dir (cdc_new ''cdc'') two_entries =
     (2, \<lparr>iceberg_path = ''cdc'', processed = [''cdc/3.json'', ''cdc/1.json'']\<rparr>, cache_clear two_entries)"
  by code_simp

lemma sync_effect_witness:
  "fst (cache_get no_sql (snd (snd (sync cdc_dir (cdc_new ''cdc'') two_entries))) 5 ''a'') = None \<and>
   fst (cache_get no_sql two_entries 5 ''a'') = Some 1 \<and>
   fst (sync cdc_dir \<lparr>iceberg_path = ''cdc'', processed = [''cdc/3.json'', ''cdc/1.json'']\<rparr> two_entries) = 0"
proof -
  have d: "distinct (processed (cdc_new ''cdc''))" by (simp add: cdc_new_def)
  have "fst (cache_get no_sql two_entries 5 ''a'') = Some 1" by code_simp
  then show ?thesis
    using sync_effect [OF cdc_dir_sync d, of no_sql two_entries] cdc_dir_sync by simp
qed

text \<open>C5: however the directory changes between ticks and whatever other tasks do to the cache,
  polling reacts exactly once to every event file: the counts it returns add up to the number of
  distinct event files that were readable at some tick, and those are the ones it remembers.\<close>

theorem polling_exactly_once:
  assumes "polling work 0 views (cdc_new path) c = (ns, l', c')"
  shows "sum_list ns = card (\<Union>f \<in> set views. visible_events f path) \<and>
    set (processed l') = (\<Union>f \<in> set views. visible_events f path) \<and> length ns = length views"
proof -
  have "distinct (processed (cdc_new path))" by (simp add: cdc_new_def)
  from polling_listener [OF assms this] show ?thesis
    by (auto simp: cdc_new_def simp flip: distinct_card)
qed

lemma polling_exactly_once_witness:
  "sum_list [2::nat, 0] = card (\<Union>f \<in> set [cdc_dir, cdc_dir]. visible_events f ''cdc'')"
proof -
  have "polling (\<lambda>i c. cache_set no_sql c i ''z'' i) 0 [cdc_dir, cdc_dir] (cdc_new ''cdc'') two_entries =
      ([2, 0], \<lparr>iceberg_path = ''cdc'', processed = [''cdc/3.json'', ''cdc/1.json'']\<rparr>,
       cache_set no_sql (cache_clear (cache_set no_sql two_entries 0 ''z'' 0)) 1 ''z'' 1)"
    by code_simp
  from polling_exactly_once [OF this] show ?thesis by (rule conjunct1)
qed

end
