(* ===== verification/Rust_Float.thy ===== *)
theory Rust_Float
  imports Rust_Str
begin

text \<open>
  Rust's \<open>f64\<close> and \<open>f32\<close> as their IEEE bit patterns, and what the sources do with them:
  \<open>is_finite\<close>, \<open>as f64\<close> and \<open>Display\<close>. \<open>Display\<close> is the shortest decimal that reads
  back as the same number, nearest to it among the shortest, written without an exponent. It is
  computed by scaling the value and its two rounding boundaries to integers and producing digits
  until a boundary is passed.
\<close>

type_synonym f64 = "64 word"
type_synonym f32 = "32 word"

definition f64_exp :: "f64 \<Rightarrow> int" where
  "f64_exp b = uint b div 2 ^ 52 mod 2048"

definition f64_frac :: "f64 \<Rightarrow> int" where
  "f64_frac b = uint b mod 2 ^ 52"

definition f64_neg :: "f64 \<Rightarrow> bool" where
  "f64_neg b \<longleftrightarrow> 2 ^ 63 \<le> uint b"

definition f64_finite :: "f64 \<Rightarrow> bool" where
  "f64_finite b \<longleftrightarrow> f64_exp b \<noteq> 2047"

definition f64_bits :: "bool \<Rightarrow> int \<Rightarrow> int \<Rightarrow> f64" where
  "f64_bits s e f = word_of_int ((if s then 2 ^ 63 else 0) + e * 2 ^ 52 + f)"

text \<open>The position of the highest set bit of a positive number.\<close>

fun top_bit :: "nat \<Rightarrow> int \<Rightarrow> nat" where
  "top_bit 0 n = 0"
| "top_bit (Suc k) n = (if n < 2 then 0 else Suc (top_bit k (n div 2)))"

definition f32_exp :: "f32 \<Rightarrow> int" where
  "f32_exp b = uint b div 2 ^ 23 mod 256"

definition f32_frac :: "f32 \<Rightarrow> int" where
  "f32_frac b = uint b mod 2 ^ 23"

text \<open>\<open>f as f64\<close>: exact; an \<open>f32\<close> subnormal becomes a normal \<open>f64\<close>.\<close>

definition f32_to_f64 :: "f32 \<Rightarrow> f64" where
  "f32_to_f64 b =
     (let s = 2 ^ 31 \<le> uint b; e = f32_exp b; f = f32_frac b
      in if e = 255 then f64_bits s 2047 (f * 2 ^ 29)
         else if e \<noteq> 0 then f64_bits s (e + 896) (f * 2 ^ 29)
         else if f = 0 then f64_bits s 0 0
         else (let p = top_bit 22 f in f64_bits s (int p + 874) ((f - 2 ^ p) * 2 ^ (52 - p))))"

subsection \<open>Shortest digits\<close>

text \<open>\<open>num / scale\<close> is the value times a power of ten, \<open>(num + plus) / scale\<close> and
  \<open>(num - minus) / scale\<close> its rounding boundaries, which belong to the interval when \<open>incl\<close>.
  The two scaling loops bring the upper boundary between a tenth and one.\<close>

fun scale_up :: "nat \<Rightarrow> bool \<Rightarrow> int \<Rightarrow> int \<Rightarrow> int \<Rightarrow> int \<times> int" where
  "scale_up 0 incl hi scale k = (scale, k)"
| "scale_up (Suc n) incl hi scale k =
     (if hi > scale \<or> incl \<and> hi = scale then scale_up n incl hi (10 * scale) (k + 1) else (scale, k))"

fun scale_down :: "nat \<Rightarrow> bool \<Rightarrow> int \<Rightarrow> int \<Rightarrow> int \<Rightarrow> int \<Rightarrow> int \<times> int" where
  "scale_down 0 incl hi scale f k = (f, k)"
| "scale_down (Suc n) incl hi scale f k =
     (if 10 * f * hi < scale \<or> \<not> incl \<and> 10 * f * hi = scale
      then scale_down n incl hi scale (10 * f) (k - 1) else (f, k))"

text \<open>Seventeen digits are enough for every \<open>f64\<close>.\<close>

fun shortest_digits :: "nat \<Rightarrow> bool \<Rightarrow> int \<Rightarrow> int \<Rightarrow> int \<Rightarrow> int \<Rightarrow> nat list \<times> bool" where
  "shortest_digits 0 incl num pl mi scale = ([], False)"
| "shortest_digits (Suc n) incl num pl mi scale =
     (let d = (10 * num) div scale; r = (10 * num) mod scale; pl = 10 * pl; mi = 10 * mi;
          down = (r < mi \<or> incl \<and> r = mi);
          up = (scale < r + pl \<or> incl \<and> scale = r + pl)
      in if \<not> down \<and> \<not> up
         then (case shortest_digits n incl r pl mi scale of (ds, u) \<Rightarrow> (nat (d mod 10) # ds, u))
         else ([nat (d mod 10)], up \<and> (\<not> down \<or> scale \<le> 2 * r)))"

text \<open>Adds one in the last place; the flag says that all digits were nines.\<close>

fun round_up :: "nat list \<Rightarrow> nat list \<times> bool" where
  "round_up [] = ([], True)"
| "round_up (d # ds) =
     (case round_up ds of (ds', c) \<Rightarrow>
        if c then (if d \<ge> 9 then (0 # ds', True) else (Suc d # ds', False)) else (d # ds', False))"

definition carry_up :: "nat list \<Rightarrow> bool \<Rightarrow> int \<Rightarrow> nat list \<times> int" where
  "carry_up ds u k =
     (if u then (case round_up ds of (ds', c) \<Rightarrow> if c then (1 # ds', k + 1) else (ds', k))
      else (ds, k))"

definition f64_digits :: "f64 \<Rightarrow> nat list \<times> int" where
  "f64_digits b =
     (let e = f64_exp b; f = f64_frac b;
          m = (if e = 0 then f else f + 2 ^ 52);
          x = max 1 e - 1075;
          up = 2 ^ nat x; dn = 2 ^ nat (- x);
          num = 4 * m * up; pl = 2 * up; mi = (if f = 0 \<and> e > 1 then 1 else 2) * up;
          scale = 4 * dn; incl = even m;
          (scale, k) = scale_up 400 incl (num + pl) scale 0;
          (s, k) = (if k = 0 then scale_down 400 incl (num + pl) scale 1 0 else (1, k));
          (ds, u) = shortest_digits 17 incl (s * num) (s * pl) (s * mi) scale
      in carry_up ds u k)"

definition show_digits :: "nat list \<Rightarrow> string" where
  "show_digits ds = map (\<lambda>d. digit_char (d mod 10)) ds"

text \<open>The digits \<open>0.d1d2... * 10 ^ k\<close> in positional notation.\<close>

definition dec_str :: "nat list \<Rightarrow> int \<Rightarrow> string" where
  "dec_str ds k =
     (if k \<le> 0 then ''0.'' @ replicate (nat (- k)) CHR ''0'' @ show_digits ds
      else if k < int (length ds)
      then show_digits (take (nat k) ds) @ ''.'' @ show_digits (drop (nat k) ds)
      else show_digits ds @ replicate (nat k - length ds) CHR ''0'')"

definition f64_display :: "f64 \<Rightarrow> string" where
  "f64_display b =
     (if \<not> f64_finite b
      then (if f64_frac b \<noteq> 0 then ''NaN'' else if f64_neg b then ''-inf'' else ''inf'')
      else (if f64_neg b then ''-'' else []) @
           (if f64_exp b = 0 \<and> f64_frac b = 0 then ''0''
            else case f64_digits b of (ds, k) \<Rightarrow> dec_str ds k))"

subsection \<open>The form of a displayed number\<close>

definition all_digits :: "string \<Rightarrow> bool" where
  "all_digits s \<longleftrightarrow> s \<noteq> [] \<and> list_all is_ascii_digit s"

definition is_decimal :: "string \<Rightarrow> bool" where
  "is_decimal s \<longleftrightarrow> all_digits s \<or> (\<exists>a b. s = a @ ''.'' @ b \<and> all_digits a \<and> all_digits b)"

definition is_number :: "string \<Rightarrow> bool" where
  "is_number s \<longleftrightarrow> is_decimal s \<or> (\<exists>t. s = CHR ''-'' # t \<and> is_decimal t)"

lemma show_digits_digits: "c \<in> set (show_digits ds) \<Longrightarrow> is_ascii_digit c"
  by (auto simp: show_digits_def)

lemma show_digits_Nil [simp]: "show_digits ds = [] \<longleftrightarrow> ds = []"
  by (simp add: show_digits_def)

lemma all_digits_show_nat [simp]: "all_digits (show_nat n)"
  using show_nat_digits [of _ n] by (auto simp: all_digits_def list_all_iff)

lemma is_number_show [simp]: "is_number (show_nat n)" "is_number (show_int i)"
  by (simp_all add: show_int_def is_number_def is_decimal_def)

lemma is_ascii_digit_zero [simp]: "is_ascii_digit CHR ''0''"
  by (simp add: is_ascii_digit_def)

lemma dec_str_decimal:
  assumes "ds \<noteq> []"
  shows "is_decimal (dec_str ds k)"
proof -
  have d: "list_all is_ascii_digit (show_digits ds')" for ds'
    using show_digits_digits by (auto simp: list_all_iff)
  consider "k \<le> 0" | "0 < k" "k < int (length ds)" | "0 < k" "\<not> k < int (length ds)" by linarith
  then show ?thesis
  proof cases
    case 1
    have "dec_str ds k = ''0'' @ ''.'' @ (replicate (nat (- k)) CHR ''0'' @ show_digits ds)"
      using 1 by (simp add: dec_str_def)
    moreover have "all_digits (replicate (nat (- k)) CHR ''0'' @ show_digits ds)"
      using assms d [of ds] by (auto simp: all_digits_def list_all_iff)
    moreover have "all_digits ''0''" by (simp add: all_digits_def)
    ultimately show ?thesis unfolding is_decimal_def by blast
  next
    case 2
    have "all_digits (show_digits (take (nat k) ds))" "all_digits (show_digits (drop (nat k) ds))"
      using 2 d by (auto simp: all_digits_def)
    with 2 show ?thesis by (auto simp: is_decimal_def dec_str_def)
  next
    case 3
    then have "dec_str ds k = show_digits ds @ replicate (nat k - length ds) CHR ''0''"
      by (simp add: dec_str_def)
    with assms d [of ds] show ?thesis
      by (auto simp: is_decimal_def all_digits_def list_all_iff)
  qed
qed

lemma shortest_digits_nonempty: "fst (shortest_digits (Suc n) incl num pl mi scale) \<noteq> []"
  by (simp add: Let_def split: prod.splits)

lemma round_up_length: "length (fst (round_up ds)) = length ds"
  by (induction ds) (auto split: prod.splits)

lemma shortest_digits_17: "shortest_digits 17 incl num pl mi scale = (ds, u) \<Longrightarrow> ds \<noteq> []"
  using shortest_digits_nonempty [of 16 incl num pl mi scale] by (simp add: numeral_eq_Suc)

lemma carry_up_nonempty: "ds \<noteq> [] \<Longrightarrow> fst (carry_up ds u k) \<noteq> []"
  using round_up_length [of ds] by (auto simp: carry_up_def split: prod.splits)

lemma f64_digits_nonempty: "fst (f64_digits b) \<noteq> []"
  unfolding f64_digits_def Let_def
  by (simp only: split: prod.splits, intro allI impI, rule carry_up_nonempty, erule shortest_digits_17)

lemma f64_display_number: "f64_finite b \<Longrightarrow> is_number (f64_display b)"
proof -
  assume "f64_finite b"
  moreover have "is_decimal ''0''" by (simp add: is_decimal_def all_digits_def)
  moreover obtain ds k where "f64_digits b = (ds, k)" "ds \<noteq> []"
    using f64_digits_nonempty [of b] by (cases "f64_digits b") auto
  ultimately show ?thesis
    using dec_str_decimal [of ds k] by (auto simp: f64_display_def is_number_def)
qed

end
