(* ===== verification/Sql_Lex.thy ===== *)
theory Sql_Lex
  imports Rust_Float
begin

text \<open>
  How PostgreSQL reads the text the program generates: a reference lexer for the fragment of SQL
  that the generated statements stay in (quoted identifiers, quoted strings, numbers, words,
  operators and punctuation; \<open>standard_conforming_strings\<close> on). It answers \<open>None\<close> outside
  the fragment: comments, prefixed strings, parameters and unterminated quotes. Nothing in this
  theory translates code; it is the yardstick for \<open>quote_ident\<close>, \<open>escape_string_literal\<close>,
  \<open>translate_filter\<close> and \<open>build_scan_sql\<close>.
\<close>

datatype token =
    TIdent string | TString string | TNumber string | TWord string | TOp string | TPunct char

definition is_space :: "char \<Rightarrow> bool" where
  "is_space c \<longleftrightarrow> c = CHR '' '' \<or> 9 \<le> code c \<and> code c \<le> 13"

definition is_op :: "char \<Rightarrow> bool" where
  "is_op c \<longleftrightarrow> c \<in> set ''+-*/<>=~!@#%^&|`?''"

definition is_punct :: "char \<Rightarrow> bool" where
  "is_punct c \<longleftrightarrow> c \<in> set '',().;''"

definition word_start :: "char \<Rightarrow> bool" where
  "word_start c \<longleftrightarrow> is_ascii_alphabetic c \<or> c = CHR ''_'' \<or> 128 \<le> code c"

definition word_char :: "char \<Rightarrow> bool" where
  "word_char c \<longleftrightarrow> word_start c \<or> is_ascii_digit c \<or> c = CHR ''$''"

definition num_char :: "char \<Rightarrow> bool" where
  "num_char c \<longleftrightarrow> is_ascii_digit c \<or> c = CHR ''.''"

abbreviation dquote :: char where "dquote \<equiv> CHR 0x22"
abbreviation squote :: char where "squote \<equiv> CHR 0x27"

text \<open>The body of a quoted token, after its opening quote; a doubled quote stands for one.\<close>

fun scan_quoted :: "char \<Rightarrow> string \<Rightarrow> (string \<times> string) option" where
  "scan_quoted q [] = None"
| "scan_quoted q [c] = (if c = q then Some ([], []) else None)"
| "scan_quoted q (c # d # s) =
     (if c \<noteq> q then map_option (\<lambda>(body, rest). (c # body, rest)) (scan_quoted q (d # s))
      else if d = q then map_option (\<lambda>(body, rest). (q # body, rest)) (scan_quoted q s)
      else Some ([], d # s))"

lemma scan_quoted_shorter: "scan_quoted q s = Some (body, rest) \<Longrightarrow> length rest < length s"
proof (induction q s arbitrary: body rest rule: scan_quoted.induct)
  case (3 q c d s)
  then show ?case by (fastforce split: if_splits)
qed (auto split: if_splits)

definition op_run_ok :: "string \<Rightarrow> bool" where
  "op_run_ok r \<longleftrightarrow> (length r = 1 \<or> (length r = 2 \<and> last r \<notin> set ''+-*''))"

definition prepend :: "token list \<Rightarrow> token list option \<Rightarrow> token list option" where
  "prepend ts r = map_option (\<lambda>us. ts @ us) r"

lemma prepend_simps [simp]:
  "prepend [] r = r"
  "prepend ts (prepend us r) = prepend (ts @ us) r"
  "prepend ts (Some us) = Some (ts @ us)"
  "prepend ts None = None"
  by (cases r; simp add: prepend_def)+

lemma dropWhile_shorter: "dropWhile P xs = y # ys \<Longrightarrow> length ys < length xs"
  using length_dropWhile_le [of P xs] by simp

function lex :: "string \<Rightarrow> token list option" where
  "lex s =
     (case s of
        [] \<Rightarrow> Some []
      | c # cs \<Rightarrow>
          if is_space c then lex cs
          else if c = dquote \<or> c = squote then
            (case scan_quoted c cs of
               None \<Rightarrow> None
             | Some (body, rest) \<Rightarrow>
                 prepend [if c = dquote then TIdent body else TString body] (lex rest))
          else if is_punct c then prepend [TPunct c] (lex cs)
          else if is_ascii_digit c then
            prepend [TNumber (takeWhile num_char s)] (lex (dropWhile num_char cs))
          else if word_start c then
            (case dropWhile word_char cs of
               d # _ \<Rightarrow> if d = dquote \<or> d = squote then None
                        else prepend [TWord (takeWhile word_char s)] (lex (dropWhile word_char cs))
             | [] \<Rightarrow> Some [TWord (takeWhile word_char s)])
          else if is_op c then
            (if op_run_ok (takeWhile is_op s)
             then prepend [TOp (takeWhile is_op s)] (lex (dropWhile is_op cs)) else None)
          else None)"
  by pat_completeness auto
termination
proof (relation "measure length")
  show "wf (measure (length :: string \<Rightarrow> nat))" by simp
qed (auto dest: scan_quoted_shorter dropWhile_shorter simp: le_imp_less_Suc length_dropWhile_le)

declare lex.simps [simp del]

subsection \<open>How a token is read\<close>

lemma lex_Nil [simp]: "lex [] = Some []"
  by (simp add: lex.simps)

lemma lex_space [lexeme]: "is_space c \<Longrightarrow> lex (c # s) = lex s"
  by (subst lex.simps) simp

lemma char_kinds [simp]:
  "is_space CHR '' ''" "\<not> is_space dquote" "\<not> is_space squote"
  "is_punct CHR ''(''" "is_punct CHR '')''" "is_punct CHR '',''" "is_punct CHR ''.''"
  "\<not> is_space CHR ''(''" "\<not> is_space CHR '')''" "\<not> is_space CHR '',''" "\<not> is_space CHR ''.''"
  by (simp_all add: is_space_def is_punct_def)

lemma lex_blank [lexeme]: "lex (CHR '' '' # s) = lex s"
  by (simp add: lex_space)

lemma lex_punct [lexeme]:
  "is_punct c \<Longrightarrow> lex (c # s) = prepend [TPunct c] (lex s)"
  by (subst lex.simps) (auto simp: is_punct_def is_space_def)

text \<open>Doubling reads back: the contents of the token are the string that was quoted, whatever
  it is, as long as no further quote follows.\<close>

definition not_at :: "char \<Rightarrow> string \<Rightarrow> bool" where
  "not_at c s \<longleftrightarrow> (case s of [] \<Rightarrow> True | d # _ \<Rightarrow> d \<noteq> c)"

lemma scan_quoted_doubled:
  "not_at q rest \<Longrightarrow> scan_quoted q (replace_char q [q, q] s @ q # rest) = Some (s, rest)"
proof (induction s)
  case Nil
  then show ?case by (cases rest) (auto simp: not_at_def)
next
  case (Cons c s)
  then show ?case
    by (cases "replace_char q [q, q] s @ q # rest") auto
qed

lemma lex_ident [lexeme]:
  "not_at dquote rest \<Longrightarrow>
   lex (dquote # replace_char dquote [dquote, dquote] s @ dquote # rest) =
     prepend [TIdent s] (lex rest)"
  by (subst lex.simps) (simp add: scan_quoted_doubled)

lemma lex_string [lexeme]:
  "not_at squote rest \<Longrightarrow>
   lex (squote # replace_char squote [squote, squote] s @ squote # rest) =
     prepend [TString s] (lex rest)"
  by (subst lex.simps) (simp add: scan_quoted_doubled)

text \<open>What may follow a token without changing how it is read.\<close>

definition delimited :: "string \<Rightarrow> bool" where
  "delimited s \<longleftrightarrow> (case s of [] \<Rightarrow> True | d # _ \<Rightarrow> d \<in> set '' ),'')"

lemma delimited_simps [simp]:
  "delimited []" "delimited (CHR '' '' # s)" "delimited (CHR '')'' # s)" "delimited (CHR '','' # s)"
  by (simp_all add: delimited_def)

lemma delimited_not_at [simp]: "delimited s \<Longrightarrow> not_at dquote s" "delimited s \<Longrightarrow> not_at squote s"
  by (auto simp: delimited_def not_at_def split: list.splits)

lemma delimited_stop:
  assumes "delimited rest" and "list_all P w"
    and "\<not> P CHR '' ''" "\<not> P CHR '')''" "\<not> P CHR '',''"
  shows "takeWhile P (w @ rest) = w" and "dropWhile P (w @ rest) = rest"
proof -
  have a: "takeWhile P (w @ rest) = w @ takeWhile P rest" "dropWhile P (w @ rest) = dropWhile P rest"
    using assms(2) by (auto simp: list_all_iff takeWhile_append dropWhile_append)
  moreover have "takeWhile P rest = []" "dropWhile P rest = rest"
    using assms(1,3-5) by (auto simp: delimited_def split: list.splits)
  ultimately show "takeWhile P (w @ rest) = w" "dropWhile P (w @ rest) = rest" by simp_all
qed

lemma lex_word [lexeme]:
  assumes "delimited rest" and "word_start c" and "list_all word_char w"
  shows "lex (c # w @ rest) = prepend [TWord (c # w)] (lex rest)"
proof -
  have n: "\<not> word_char CHR '' ''" "\<not> word_char CHR '')''" "\<not> word_char CHR '',''"
    by (simp_all add: word_char_def word_start_def is_ascii_alphabetic_def is_ascii_digit_def
        is_ascii_lowercase_def is_ascii_uppercase_def)
  have c: "\<not> is_space c" "c \<noteq> dquote" "c \<noteq> squote" "\<not> is_punct c" "\<not> is_ascii_digit c" "word_char c"
    using assms(2)
    by (auto simp: word_start_def word_char_def is_space_def is_punct_def is_ascii_digit_def
        is_ascii_alphabetic_def is_ascii_lowercase_def is_ascii_uppercase_def)
  note stop = delimited_stop [OF assms(1,3) n]
  have "rest = [] \<or> (\<exists>d r. rest = d # r \<and> d \<noteq> dquote \<and> d \<noteq> squote)"
    using assms(1) by (auto simp: delimited_def split: list.splits)
  with stop c assms(2) show ?thesis by (subst lex.simps) auto
qed

lemma lex_decimal:
  assumes "delimited rest" and "is_decimal s"
  shows "lex (s @ rest) = prepend [TNumber s] (lex rest)"
proof -
  have n: "\<not> num_char CHR '' ''" "\<not> num_char CHR '')''" "\<not> num_char CHR '',''"
    by (simp_all add: num_char_def is_ascii_digit_def)
  have all: "list_all num_char s" and ne: "s \<noteq> []" and d: "is_ascii_digit (hd s)"
    using assms(2) by (auto simp: is_decimal_def all_digits_def num_char_def list_all_iff)
  obtain c w where s: "s = c # w" using ne by (cases s) auto
  have c: "\<not> is_space c" "c \<noteq> dquote" "c \<noteq> squote" "\<not> is_punct c" "num_char c"
    using d by (auto simp: s is_space_def is_punct_def is_ascii_digit_def num_char_def)
  have "list_all num_char w" using all s by simp
  note stop = delimited_stop [OF assms(1) this n]
  show ?thesis using stop c d by (subst lex.simps) (simp add: s)
qed

lemma is_op_simps [simp]: "is_op CHR ''-''" "\<not> is_op CHR '' ''"
  by (simp_all add: is_op_def)

text \<open>An operator followed by a blank, and the minus sign of a number.\<close>

lemma lex_op [lexeme]:
  assumes "r \<noteq> []" and "list_all is_op r" and "op_run_ok r"
  shows "lex (r @ CHR '' '' # s) = prepend [TOp r] (lex s)"
proof -
  obtain c w where r: "r = c # w" using assms(1) by (cases r) auto
  have c: "is_op c" "list_all is_op w" using assms(2) r by simp_all
  then have k: "\<not> is_space c" "c \<noteq> dquote" "c \<noteq> squote" "\<not> is_punct c" "\<not> is_ascii_digit c"
    "\<not> word_start c"
    by (auto simp: is_op_def is_space_def is_punct_def is_ascii_digit_def word_start_def
        is_ascii_alphabetic_def is_ascii_lowercase_def is_ascii_uppercase_def)
  have w: "takeWhile is_op (w @ CHR '' '' # s) = w" "dropWhile is_op (w @ CHR '' '' # s) = CHR '' '' # s"
    using c(2) by (auto simp: list_all_iff takeWhile_append dropWhile_append)
  show ?thesis
    using c(1) k w assms(3) by (subst lex.simps) (simp add: r lex_blank)
qed

lemma lex_minus:
  assumes "is_ascii_digit d"
  shows "lex (CHR ''-'' # d # s) = prepend [TOp ''-''] (lex (d # s))"
proof -
  have "\<not> is_op d" using assms by (auto simp: is_op_def is_ascii_digit_def)
  then show ?thesis
    by (subst lex.simps)
      (simp add: is_space_def is_punct_def is_ascii_digit_def word_start_def op_run_ok_def
        is_ascii_alphabetic_def is_ascii_lowercase_def is_ascii_uppercase_def)
qed

definition number_toks :: "string \<Rightarrow> token list" where
  "number_toks s =
     (case s of c # t \<Rightarrow> if c = CHR ''-'' then [TOp ''-'', TNumber t] else [TNumber s] | [] \<Rightarrow> [])"

lemma decimal_head: "is_decimal s \<Longrightarrow> \<exists>d t. s = d # t \<and> is_ascii_digit d \<and> d \<noteq> CHR ''-''"
  by (cases s) (auto simp: is_decimal_def all_digits_def is_ascii_digit_def Cons_eq_append_conv)

lemma lex_number [lexeme]:
  assumes "delimited rest" and "is_number s"
  shows "lex (s @ rest) = prepend (number_toks s) (lex rest)"
proof (cases "is_decimal s")
  case True
  with decimal_head [OF True] lex_decimal [OF assms(1) True] show ?thesis
    by (auto simp: number_toks_def)
next
  case False
  with assms(2) obtain t where t: "s = CHR ''-'' # t" "is_decimal t" by (auto simp: is_number_def)
  from decimal_head [OF t(2)] obtain d u where "t = d # u" "is_ascii_digit d" by blast
  with lex_minus [of d "u @ rest"] lex_decimal [OF assms(1) t(2)] t(1) show ?thesis
    by (simp add: number_toks_def)
qed

text \<open>The unfolding of the lexer on a known first character, for fixed text.\<close>

lemma lex_Cons:
  "lex (c # cs) =
     (if is_space c then lex cs
      else if c = dquote \<or> c = squote then
        (case scan_quoted c cs of
           None \<Rightarrow> None
         | Some (body, rest) \<Rightarrow>
             prepend [if c = dquote then TIdent body else TString body] (lex rest))
      else if is_punct c then prepend [TPunct c] (lex cs)
      else if is_ascii_digit c then
        prepend [TNumber (takeWhile num_char (c # cs))] (lex (dropWhile num_char cs))
      else if word_start c then
        (case dropWhile word_char cs of
           d # _ \<Rightarrow> if d = dquote \<or> d = squote then None
                    else prepend [TWord (takeWhile word_char (c # cs))] (lex (dropWhile word_char cs))
         | [] \<Rightarrow> Some [TWord (takeWhile word_char (c # cs))])
      else if is_op c then
        (if op_run_ok (takeWhile is_op (c # cs))
         then prepend [TOp (takeWhile is_op (c # cs))] (lex (dropWhile is_op cs)) else None)
      else None)"
  by (subst lex.simps) simp

lemmas char_classes = is_space_def word_start_def word_char_def num_char_def is_ascii_digit_def
  is_ascii_alphabetic_def is_ascii_lowercase_def is_ascii_uppercase_def

subsection \<open>Printers\<close>

text \<open>A printer whose output is read as known tokens; joining its outputs with a separator is
  read as the tokens with the separator's in between.\<close>

definition sep_ok :: "string \<Rightarrow> token list \<Rightarrow> bool" where
  "sep_ok sep ts \<longleftrightarrow> (\<forall>s. delimited (sep @ s) \<and> lex (sep @ s) = prepend ts (lex s))"

fun sep_toks :: "token list \<Rightarrow> token list list \<Rightarrow> token list" where
  "sep_toks sep [] = []"
| "sep_toks sep [t] = t"
| "sep_toks sep (t # u # us) = t @ sep @ sep_toks sep (u # us)"

locale sql_printer =
  fixes printed :: "'a \<Rightarrow> string"
    and toks :: "'a \<Rightarrow> token list"
    and printable :: "'a \<Rightarrow> bool"
  assumes lex_printed:
    "printable x \<Longrightarrow> delimited rest \<Longrightarrow> lex (printed x @ rest) = prepend (toks x) (lex rest)"
begin

lemma lex_joined:
  assumes "sep_ok sep ts" and "delimited rest" and "list_all printable xs" and "xs \<noteq> []"
  shows "lex (join sep (map printed xs) @ rest) = prepend (sep_toks ts (map toks xs)) (lex rest)"
  using assms(3,4)
proof (induction xs rule: induct_list012)
  case (2 x)
  then show ?case using lex_printed [of x] assms(2) by simp
next
  case (3 x y zs)
  have "lex (printed x @ sep @ join sep (map printed (y # zs)) @ rest) =
      prepend (toks x) (lex (sep @ join sep (map printed (y # zs)) @ rest))"
    using 3 assms(1) by (intro lex_printed) (auto simp: sep_ok_def)
  also have "\<dots> = prepend (toks x @ ts) (lex (join sep (map printed (y # zs)) @ rest))"
    using assms(1) by (simp add: sep_ok_def)
  finally show ?case using 3 by simp
qed simp

end

lemma sep_ok_comma: "sep_ok '', '' [TPunct CHR '','']"
  by (simp add: sep_ok_def lexeme)

lemma sep_ok_and: "sep_ok '' AND '' [TWord ''AND'']"
proof -
  have "lex (CHR '' '' # CHR ''A'' # CHR ''N'' # CHR ''D'' # CHR '' '' # s) =
      prepend [TWord ''AND''] (lex s)" for s
    using lex_word [of "'' '' @ s" "CHR ''A''" "''ND''"]
    by (simp add: lex_blank word_start_def word_char_def is_ascii_alphabetic_def
        is_ascii_uppercase_def)
  then show ?thesis by (simp add: sep_ok_def)
qed

end
