(* ===== verification/Sql_Quote.thy ===== *)
theory Sql_Quote
  imports Sql_Lex
begin

text \<open>
  Quoting: \<open>quote_ident\<close> and \<open>quote_relation\<close> of \<open>src/postgres_table.rs\<close> and
  \<open>escape_string_literal\<close> of \<open>src/pushdown.rs\<close>. Whatever the identifier or the string, the
  quoted text is read as exactly one token (two and a dot for a relation) with that content.
\<close>

definition quote_ident :: "string \<Rightarrow> string" where
  "quote_ident name = [dquote] @ replace_char dquote [dquote, dquote] name @ [dquote]"

definition quote_relation :: "string \<Rightarrow> string \<Rightarrow> string" where
  "quote_relation schema_name table_name = quote_ident schema_name @ ''.'' @ quote_ident table_name"

definition escape_string_literal :: "string \<Rightarrow> string option" where
  "escape_string_literal s =
     (if CHR 0x00 \<in> set s then None
      else Some ([squote] @ replace_char squote [squote, squote] s @ [squote]))"

lemma lex_quote_ident [lexeme]:
  "not_at dquote rest \<Longrightarrow> lex (quote_ident s @ rest) = prepend [TIdent s] (lex rest)"
  by (simp add: quote_ident_def lex_ident)

lemma lex_quote_relation [lexeme]:
  assumes "not_at dquote rest"
  shows "lex (quote_relation a b @ rest) =
    prepend [TIdent a, TPunct CHR ''.'', TIdent b] (lex rest)"
proof -
  have "not_at dquote (''.'' @ quote_ident b @ rest)" by (simp add: not_at_def)
  from lex_quote_ident [OF this, of a] assms show ?thesis
    by (simp add: quote_relation_def lex_punct lex_quote_ident)
qed

lemma lex_escape_string [lexeme]:
  "escape_string_literal s = Some t \<Longrightarrow> not_at squote rest \<Longrightarrow>
   lex (t @ rest) = prepend [TString s] (lex rest)"
  by (auto simp: escape_string_literal_def lex_string split: if_splits)

interpretation ident: sql_printer quote_ident "\<lambda>s. [TIdent s]" "\<lambda>s. True"
  by unfold_locales (simp add: lex_quote_ident)

interpretation str: sql_printer "\<lambda>s. the (escape_string_literal s)" "\<lambda>s. [TString s]"
  "\<lambda>s. CHR 0x00 \<notin> set s"
  by unfold_locales (auto simp: escape_string_literal_def lex_string)

end
