(* ===== verification/Arrow_Types.thy ===== *)
theory Arrow_Types
  imports Rust_Float
begin

text \<open>
  The data vocabulary the components exchange: Arrow types, fields and schemas, DataFusion's
  scalar values, columns and expressions, and the error type of \<open>src/errors.rs\<close>. The library
  types have more constructors than the sources ever name; each datatype keeps the named ones and
  one constructor for all the rest, which carries what tells the rest apart. An \<open>i64\<close> is an
  \<open>int\<close>, known to be in range where it was parsed; a \<open>Vec<u8>\<close> is a byte string.
\<close>

datatype time_unit = Second | Millisecond | Microsecond | Nanosecond

datatype data_type =
    Int16 | Int32 | Int64 | Float32 | Float64 | Utf8 | Boolean | Binary | Date32
  | Timestamp time_unit "string option"
  | OtherType string

record field =
  f_name :: string
  f_type :: data_type
  f_nullable :: bool
  f_meta :: "string \<Rightarrow> string option"

type_synonym schema = "field list"

datatype scalar =
    SBoolean "bool option"
  | SInt8 "int option" | SInt16 "int option" | SInt32 "int option" | SInt64 "int option"
  | SUInt8 "nat option" | SUInt16 "nat option" | SUInt32 "nat option" | SUInt64 "nat option"
  | SFloat32 "f32 option" | SFloat64 "f64 option"
  | SUtf8 "string option" | SLargeUtf8 "string option" | SUtf8View "string option"
  | SBinary "string option"
  | SDate32 "int option"
  | STimestampNanosecond "int option" "string option"
  | SOther data_type string

text \<open>\<open>ScalarValue::data_type\<close> on the constructors the server builds.\<close>

fun scalar_type :: "scalar \<Rightarrow> data_type" where
  "scalar_type (SBoolean _) = Boolean"
| "scalar_type (SInt8 _) = OtherType ''Int8''"
| "scalar_type (SInt16 _) = Int16"
| "scalar_type (SInt32 _) = Int32"
| "scalar_type (SInt64 _) = Int64"
| "scalar_type (SUInt8 _) = OtherType ''UInt8''"
| "scalar_type (SUInt16 _) = OtherType ''UInt16''"
| "scalar_type (SUInt32 _) = OtherType ''UInt32''"
| "scalar_type (SUInt64 _) = OtherType ''UInt64''"
| "scalar_type (SFloat32 _) = Float32"
| "scalar_type (SFloat64 _) = Float64"
| "scalar_type (SUtf8 _) = Utf8"
| "scalar_type (SLargeUtf8 _) = OtherType ''LargeUtf8''"
| "scalar_type (SUtf8View _) = OtherType ''Utf8View''"
| "scalar_type (SBinary _) = Binary"
| "scalar_type (SDate32 _) = Date32"
| "scalar_type (STimestampNanosecond _ tz) = Timestamp Nanosecond tz"
| "scalar_type (SOther t _) = t"

fun scalar_null :: "scalar \<Rightarrow> bool" where
  "scalar_null (SBoolean v) = (v = None)"
| "scalar_null (SInt16 v) = (v = None)"
| "scalar_null (SInt32 v) = (v = None)"
| "scalar_null (SInt64 v) = (v = None)"
| "scalar_null (SFloat32 v) = (v = None)"
| "scalar_null (SFloat64 v) = (v = None)"
| "scalar_null (SUtf8 v) = (v = None)"
| "scalar_null (SBinary v) = (v = None)"
| "scalar_null (SDate32 v) = (v = None)"
| "scalar_null (STimestampNanosecond v tz) = (v = None)"
| "scalar_null _ = False"

record column =
  c_relation :: "string option"
  c_name :: string

datatype operator = And | Or | Eq | NotEq | Lt | LtEq | Gt | GtEq | OtherOp string

datatype expr =
    Column column
  | Literal scalar
  | BinaryExpr expr operator expr
  | IsNull expr
  | IsNotNull expr
  | InList expr "expr list" bool
  | OtherExpr string "expr list"

text \<open>The messages of \<open>IglooError::Config\<close>, one constructor per message with the values the
  message shows. A \<open>Secret\<close> is never among them.\<close>

datatype name_reason = NameEmpty | NameBadStart | NameBadChar uchar

datatype config_error =
    Missing string string
  | MissingSourceUri string string
  | MissingListenAddr
  | NoConfigFile string
  | InvalidConfigFile string string
  | NotAnInteger string string
  | EmptyParquetPath
  | EmptyCdcPath
  | NoSources
  | EmptySourceList
  | MixedForms
  | InvalidSourceName string name_reason
  | ReservedSourceName string
  | DuplicateSource string
  | ImplausibleUri string
  | NoSchemas string
  | EmptySchemaName string
  | EmptyAllowlist string
  | EmptyTableName string
  | BadListenAddr string
  | ZeroCacheEntries
  | ZeroCacheTtl
  | ZeroCdcPoll

text \<open>\<open>IglooError\<close>: the first six wrap a library's error, which is its message here.\<close>

datatype igloo_error =
    EDataFusion string | EArrow string | EPostgres string | EAdbcCore string | EIo string
  | EParquet string | EConfig config_error | EUnsupportedArrowType data_type

end
