(* ===== verification/Pushdown.thy ===== *)
theory Pushdown
  imports Sql_Quote Arrow_Types
begin

text \<open>
  \<open>src/pushdown.rs\<close>: the translation of filter expressions to SQL text, function by function.
\<close>

definition as_column :: "expr \<Rightarrow> column option" where
  "as_column e = (case e of Column c \<Rightarrow> Some c | _ \<Rightarrow> None)"

definition as_literal :: "expr \<Rightarrow> scalar option" where
  "as_literal e = (case e of Literal v \<Rightarrow> Some v | _ \<Rightarrow> None)"

definition column_sql :: "column \<Rightarrow> schema \<Rightarrow> string option" where
  "column_sql c sch =
     (if list_ex (\<lambda>f. f_name f = c_name c) sch then Some (quote_ident (c_name c)) else None)"

fun is_ordering :: "operator \<Rightarrow> bool" where
  "is_ordering Lt = True"
| "is_ordering LtEq = True"
| "is_ordering Gt = True"
| "is_ordering GtEq = True"
| "is_ordering _ = False"

fun is_string_literal :: "scalar \<Rightarrow> bool" where
  "is_string_literal (SUtf8 (Some _)) = True"
| "is_string_literal (SLargeUtf8 (Some _)) = True"
| "is_string_literal (SUtf8View (Some _)) = True"
| "is_string_literal _ = False"

fun comparison_op_sql :: "operator \<Rightarrow> string option" where
  "comparison_op_sql Eq = Some ''=''"
| "comparison_op_sql NotEq = Some ''<>''"
| "comparison_op_sql Lt = Some ''<''"
| "comparison_op_sql LtEq = Some ''<=''"
| "comparison_op_sql Gt = Some ''>''"
| "comparison_op_sql GtEq = Some ''>=''"
| "comparison_op_sql _ = None"

fun flip_operator :: "operator \<Rightarrow> operator" where
  "flip_operator Lt = Gt"
| "flip_operator LtEq = GtEq"
| "flip_operator Gt = Lt"
| "flip_operator GtEq = LtEq"
| "flip_operator other = other"

definition finite_float_sql :: "f64 \<Rightarrow> string option" where
  "finite_float_sql f = (if f64_finite f then Some (f64_display f) else None)"

fun literal_sql :: "scalar \<Rightarrow> string option" where
  "literal_sql (SBoolean (Some b)) = Some (if b then ''TRUE'' else ''FALSE'')"
| "literal_sql (SInt8 (Some i)) = Some (show_int i)"
| "literal_sql (SInt16 (Some i)) = Some (show_int i)"
| "literal_sql (SInt32 (Some i)) = Some (show_int i)"
| "literal_sql (SInt64 (Some i)) = Some (show_int i)"
| "literal_sql (SUInt8 (Some n)) = Some (show_nat n)"
| "literal_sql (SUInt16 (Some n)) = Some (show_nat n)"
| "literal_sql (SUInt32 (Some n)) = Some (show_nat n)"
| "literal_sql (SUInt64 (Some n)) = Some (show_nat n)"
| "literal_sql (SFloat32 (Some f)) = finite_float_sql (f32_to_f64 f)"
| "literal_sql (SFloat64 (Some f)) = finite_float_sql f"
| "literal_sql (SUtf8 (Some s)) = escape_string_literal s"
| "literal_sql (SLargeUtf8 (Some s)) = escape_string_literal s"
| "literal_sql (SUtf8View (Some s)) = escape_string_literal s"
| "literal_sql _ = None"

definition translate_comparison :: "expr \<Rightarrow> operator \<Rightarrow> expr \<Rightarrow> schema \<Rightarrow> string option" where
  "translate_comparison l op r sch =
     (case comparison_op_sql op of None \<Rightarrow> None
      | Some sql_op \<Rightarrow>
        (case (as_column l, as_literal r) of
           (Some col, Some lit) \<Rightarrow>
             if is_ordering op \<and> is_string_literal lit then None
             else (case column_sql col sch of None \<Rightarrow> None
                   | Some col \<Rightarrow> (case literal_sql lit of None \<Rightarrow> None
                     | Some lit \<Rightarrow> Some (col @ '' '' @ sql_op @ '' '' @ lit)))
         | _ \<Rightarrow>
           (case (as_literal l, as_column r) of
              (Some lit, Some col) \<Rightarrow>
                if is_ordering op \<and> is_string_literal lit then None
                else (case comparison_op_sql (flip_operator op) of None \<Rightarrow> None
                      | Some flipped \<Rightarrow> (case column_sql col sch of None \<Rightarrow> None
                        | Some col \<Rightarrow> (case literal_sql lit of None \<Rightarrow> None
                          | Some lit \<Rightarrow> Some (col @ '' '' @ flipped @ '' '' @ lit))))
            | _ \<Rightarrow> None)))"

definition translate_in_list :: "expr \<Rightarrow> expr list \<Rightarrow> bool \<Rightarrow> schema \<Rightarrow> string option" where
  "translate_in_list e xs negated sch =
     (case Option.bind (as_column e) (\<lambda>c. column_sql c sch) of None \<Rightarrow> None
      | Some col \<Rightarrow>
          if xs = [] then None
          else (case collect_option (\<lambda>x. Option.bind (as_literal x) literal_sql) xs of
                  None \<Rightarrow> None
                | Some items \<Rightarrow>
                    Some (col @ '' '' @ (if negated then ''NOT IN'' else ''IN'') @ '' ('' @
                          join '', '' items @ '')'')))"

fun translate_filter :: "expr \<Rightarrow> schema \<Rightarrow> string option" where
  "translate_filter (BinaryExpr l op r) sch =
     (if op = And
      then (case translate_filter l sch of None \<Rightarrow> None
            | Some a \<Rightarrow> (case translate_filter r sch of None \<Rightarrow> None
              | Some b \<Rightarrow> Some (''('' @ a @ '' AND '' @ b @ '')'')))
      else translate_comparison l op r sch)"
| "translate_filter (IsNull e) sch =
     map_option (\<lambda>col. col @ '' IS NULL'') (Option.bind (as_column e) (\<lambda>c. column_sql c sch))"
| "translate_filter (IsNotNull e) sch =
     map_option (\<lambda>col. col @ '' IS NOT NULL'') (Option.bind (as_column e) (\<lambda>c. column_sql c sch))"
| "translate_filter (InList e xs negated) sch = translate_in_list e xs negated sch"
| "translate_filter _ sch = None"

end
