(* ===== verification/Rust_Parse.thy ===== *)
theory Rust_Parse
  imports Rust_Float
begin

text \<open>
  \<open>FromStr\<close> of Rust's \<open>f64\<close> and \<open>f32\<close>: an optional sign, then \<open>inf\<close>, \<open>infinity\<close> or
  \<open>nan\<close> in any case, or a decimal with at least one digit and an optional exponent; the value
  is rounded to the nearest representable number, ties to even. A format is its precision \<open>p\<close>
  (53 or 24 bits), the exponent \<open>lo\<close> of its smallest unit and its width.
\<close>

record float_format =
  ff_precision :: nat
  ff_lowest :: int
  ff_exp_bits :: nat

definition f64_format :: float_format where
  "f64_format = \<lparr>ff_precision = 53, ff_lowest = - 1074, ff_exp_bits = 11\<rparr>"

definition f32_format :: float_format where
  "f32_format = \<lparr>ff_precision = 24, ff_lowest = - 149, ff_exp_bits = 8\<rparr>"

text \<open>The greatest \<open>k\<close> with \<open>2 ^ k \<le> n\<close>, for positive \<open>n\<close>.\<close>

fun log2_fuel :: "nat \<Rightarrow> int \<Rightarrow> int" where
  "log2_fuel 0 n = 0"
| "log2_fuel (Suc k) n = (if n < 2 then 0 else 1 + log2_fuel k (n div 2))"

definition pow2 :: "int \<Rightarrow> int" where
  "pow2 e = 2 ^ nat e"

text \<open>\<open>num / den\<close> over \<open>2 ^ e\<close>, rounded half to even.\<close>

definition scaled_round :: "int \<Rightarrow> int \<Rightarrow> int \<Rightarrow> int" where
  "scaled_round num den e =
     (let n = num * pow2 (- e); d = den * pow2 e; q = n div d; r = n mod d
      in if 2 * r > d \<or> 2 * r = d \<and> odd q then q + 1 else q)"

text \<open>The bits below the sign of the number nearest to \<open>num / den\<close>. The exponent is the largest
  that leaves \<open>p\<close> bits, found from an estimate that is at most one too small.\<close>

definition float_bits :: "float_format \<Rightarrow> nat \<Rightarrow> int \<Rightarrow> int \<Rightarrow> int" where
  "float_bits ff fuel num den =
     (let p = int (ff_precision ff);
          e0 = log2_fuel fuel num - log2_fuel fuel den - p;
          e = max (ff_lowest ff) (if num * pow2 (- e0) \<ge> den * pow2 e0 * pow2 p then e0 + 1 else e0);
          q = scaled_round num den e;
          (q, e) = (if q = pow2 p then (pow2 (p - 1), e + 1) else (q, e));
          biased = e - ff_lowest ff + 1;
          top = pow2 (int (ff_exp_bits ff)) - 1
      in if q < pow2 (p - 1) then q
         else if biased \<ge> top then top * pow2 (p - 1)
         else biased * pow2 (p - 1) + (q - pow2 (p - 1)))"

fun span_digits :: "string \<Rightarrow> nat list \<times> string" where
  "span_digits [] = ([], [])"
| "span_digits (c # s) =
     (if is_ascii_digit c then (case span_digits s of (ds, r) \<Rightarrow> ((code c - 48) # ds, r))
      else ([], c # s))"

definition digits_int :: "nat list \<Rightarrow> int" where
  "digits_int ds = foldl (\<lambda>n d. 10 * n + int d) 0 ds"

definition parse_sign :: "string \<Rightarrow> bool \<times> string" where
  "parse_sign s = (case s of c # t \<Rightarrow> if c = CHR ''-'' then (True, t) else if c = CHR ''+'' then (False, t)
                                     else (False, s)
                   | [] \<Rightarrow> (False, []))"

definition parse_exponent :: "string \<Rightarrow> int option" where
  "parse_exponent s =
     (case s of
        [] \<Rightarrow> Some 0
      | c # t \<Rightarrow>
          if c = CHR ''e'' \<or> c = CHR ''E''
          then (case parse_sign t of (neg, u) \<Rightarrow>
                  (case span_digits u of (ds, r) \<Rightarrow>
                     if ds = [] \<or> r \<noteq> [] then None
                     else Some (if neg then - digits_int ds else digits_int ds)))
          else None)"

text \<open>The mantissa as an integer, the power of ten it is scaled by and how many digits it has.\<close>

definition parse_decimal :: "string \<Rightarrow> (int \<times> int \<times> nat) option" where
  "parse_decimal s =
     (case span_digits s of (whole, r) \<Rightarrow>
        (case (case r of c # t \<Rightarrow> if c = CHR ''.'' then span_digits t else ([], r) | [] \<Rightarrow> ([], [])) of
           (frac, r') \<Rightarrow>
             if whole @ frac = [] then None
             else (case parse_exponent r' of None \<Rightarrow> None
                   | Some e \<Rightarrow> Some (digits_int (whole @ frac), e - int (length frac),
                                     length (whole @ frac)))))"

definition parse_float :: "float_format \<Rightarrow> string \<Rightarrow> (bool \<times> int) option" where
  "parse_float ff s =
     (case parse_sign s of (neg, t) \<Rightarrow>
        let top = (pow2 (int (ff_exp_bits ff)) - 1) * pow2 (int (ff_precision ff) - 1);
            name = to_ascii_lowercase t
        in if name = ''inf'' \<or> name = ''infinity'' then Some (neg, top)
           else if name = ''nan'' then Some (neg, top + pow2 (int (ff_precision ff) - 2))
           else (case parse_decimal t of None \<Rightarrow> None
                 | Some (m, e, n) \<Rightarrow>
                     Some (neg, if m = 0 then 0
                                else float_bits ff (4 * (n + nat \<bar>e\<bar>)) (m * 10 ^ nat e) (10 ^ nat (- e)))))"

definition parse_f64 :: "string \<Rightarrow> f64 option" where
  "parse_f64 s = map_option (\<lambda>(neg, b). word_of_int (b + (if neg then 2 ^ 63 else 0))) (parse_float f64_format s)"

definition parse_f32 :: "string \<Rightarrow> f32 option" where
  "parse_f32 s = map_option (\<lambda>(neg, b). word_of_int (b + (if neg then 2 ^ 31 else 0))) (parse_float f32_format s)"

lemma parse_float_examples:
  "parse_f64 ''0.1'' = Some 0x3FB999999999999A"
  "parse_f64 ''-4.5'' = Some 0xC012000000000000"
  "parse_f64 ''9007199254740993'' = Some 0x4340000000000000"
  "parse_f64 ''inf'' = Some 0x7FF0000000000000"
  "parse_f64 ''.'' = None"
  "parse_f32 ''0.1'' = Some 0x3DCCCCCD"
  by code_simp+

end
