(* ===== verification/Float_Read.thy ===== *)
theory Float_Read
  imports Rust_Parse Complex_Main
begin

text \<open>
  Displaying an \<open>f64\<close> and reading the text back gives the same \<open>f64\<close> (\<open>parse_f64_display\<close>).

  The proof has two halves. The loops of \<open>f64_digits\<close> end within their fuel, and the decimal they
  produce lies between the two boundaries of the float's rounding interval, which belong to it when
  the mantissa is even (\<open>f64_digits_round\<close>). And any decimal in that interval is read as the float
  (\<open>float_bits_rounds\<close>). Inequalities between scaled integers become inequalities between reals
  with \<open>enclosed\<close>.
\<close>

subsection \<open>Digits\<close>

lemma digits_int_foldl: "foldl (\<lambda>n d. 10 * n + int d) a ds = a * 10 ^ length ds + digits_int ds"
proof (induction ds arbitrary: a)
  case (Cons d ds)
  from Cons [of "10 * a + int d"] Cons [of "int d"] show ?case
    by (simp add: digits_int_def algebra_simps)
qed (simp add: digits_int_def)

lemma digits_int_simps [simp]:
  "digits_int [] = 0"
  "digits_int (d # ds) = int d * 10 ^ length ds + digits_int ds"
  using digits_int_foldl [of "int d" ds] by (simp_all add: digits_int_def)

lemma digits_int_append [simp]: "digits_int (ds @ es) = digits_int ds * 10 ^ length es + digits_int es"
  by (induction ds) (simp_all add: algebra_simps power_add)

lemma digits_int_zeros [simp]: "digits_int (replicate n 0) = 0"
  by (induction n) simp_all

lemma digits_int_nonneg [simp]: "0 \<le> digits_int ds"
  by (induction ds) simp_all

lemma digits_int_less: "\<forall>d \<in> set ds. d \<le> 9 \<Longrightarrow> digits_int ds < 10 ^ length ds"
proof (induction ds)
  case (Cons d ds)
  then have "digits_int ds < 10 ^ length ds" and "int d \<le> 9" by auto
  moreover from this(2) have "int d * 10 ^ length ds \<le> 9 * 10 ^ length ds" by (intro mult_right_mono) auto
  moreover have "digits_int (d # ds) = int d * 10 ^ length ds + digits_int ds" by simp
  ultimately have "digits_int (d # ds) < 9 * 10 ^ length ds + 10 ^ length ds" by linarith
  then show ?case by simp
qed simp

subsection \<open>The digit loop\<close>

definition near :: "bool \<Rightarrow> int \<Rightarrow> int \<Rightarrow> int \<Rightarrow> bool" where
  "near incl lo x hi \<longleftrightarrow> lo \<le> x \<and> x \<le> hi \<and> (incl \<or> lo < x \<and> x < hi)"

definition digit_value :: "nat list \<times> bool \<Rightarrow> int" where
  "digit_value p = digits_int (fst p) + of_bool (snd p)"

lemma near_shift: "near incl (c + lo) (c + x) (c + hi) = near incl lo x hi"
  by (simp add: near_def)

lemma shortest_digits_near:
  assumes "0 < pl" "0 < mi" "mi \<le> num" "num + pl < scale \<or> \<not> incl \<and> num + pl = scale"
    and "scale < (pl + mi) * 10 ^ n"
  shows "near incl ((num - mi) * 10 ^ length (fst (shortest_digits n incl num pl mi scale)))
      (digit_value (shortest_digits n incl num pl mi scale) * scale)
      ((num + pl) * 10 ^ length (fst (shortest_digits n incl num pl mi scale)))
    \<and> (\<forall>d \<in> set (fst (shortest_digits n incl num pl mi scale)). d \<le> 9)"
  using assms
proof (induction n arbitrary: num pl mi)
  case 0
  then show ?case by auto
next
  case (Suc n)
  define d where "d = (10 * num) div scale"
  define r where "r = (10 * num) mod scale"
  define down where "down \<longleftrightarrow> r < 10 * mi \<or> incl \<and> r = 10 * mi"
  define up where "up \<longleftrightarrow> scale < r + 10 * pl \<or> incl \<and> scale = r + 10 * pl"
  have scale: "0 < scale" using Suc.prems by auto
  then have r: "0 \<le> r" "r < scale" by (simp_all add: r_def)
  have num: "10 * num = d * scale + r" by (simp add: d_def r_def)
  have d0: "0 \<le> d" using Suc.prems scale by (simp add: d_def pos_imp_zdiv_nonneg_iff)
  have "d * scale \<le> 10 * num" using num r by simp
  also have "10 * num < 10 * scale" using Suc.prems by auto
  finally have d9: "d < 10" using scale by simp
  have dm: "int (nat (d mod 10)) = d" using d0 d9 by simp
  have step: "shortest_digits (Suc n) incl num pl mi scale =
      (if \<not> down \<and> \<not> up
       then (case shortest_digits n incl r (10 * pl) (10 * mi) scale of (ds, u) \<Rightarrow> (nat (d mod 10) # ds, u))
       else ([nat (d mod 10)], up \<and> (\<not> down \<or> scale \<le> 2 * r)))"
    by (simp only: shortest_digits.simps Let_def d_def r_def down_def up_def)
  show ?case
  proof (cases "\<not> down \<and> \<not> up")
    case True
    define rest where "rest = shortest_digits n incl r (10 * pl) (10 * mi) scale"
    have eq: "shortest_digits (Suc n) incl num pl mi scale = (nat (d mod 10) # fst rest, snd rest)"
      unfolding step rest_def using True by (simp add: split_beta)
    have p1: "10 * mi \<le> r" and p2: "r + 10 * pl < scale \<or> \<not> incl \<and> r + 10 * pl = scale"
      using True by (auto simp: down_def up_def)
    have p3: "scale < (10 * pl + 10 * mi) * 10 ^ n"
      using Suc.prems(5) by (simp add: algebra_simps)
    have pos: "0 < 10 * pl" "0 < 10 * mi" using Suc.prems by simp_all
    have IH: "near incl ((r - 10 * mi) * 10 ^ length (fst rest)) (digit_value rest * scale)
        ((r + 10 * pl) * 10 ^ length (fst rest))" "\<forall>d \<in> set (fst rest). d \<le> 9"
      unfolding rest_def using Suc.IH [OF pos(1) pos(2) p1 p2 p3] by blast+
    have "(10 * (num - mi)) = d * scale + (r - 10 * mi)" "(10 * (num + pl)) = d * scale + (r + 10 * pl)"
      using num by simp_all
    then have ends: "(num - mi) * 10 ^ Suc (length (fst rest)) =
          d * scale * 10 ^ length (fst rest) + (r - 10 * mi) * 10 ^ length (fst rest)"
        "(num + pl) * 10 ^ Suc (length (fst rest)) =
          d * scale * 10 ^ length (fst rest) + (r + 10 * pl) * 10 ^ length (fst rest)"
      by (metis (no_types, lifting) distrib_right mult.assoc mult.commute power_Suc)+
    have mid: "digit_value (nat (d mod 10) # fst rest, snd rest) * scale =
          d * scale * 10 ^ length (fst rest) + digit_value rest * scale"
      using d0 d9 by (simp add: digit_value_def algebra_simps mod_pos_pos_trivial)
    show ?thesis
      using IH d9 d0 by (simp only: eq fst_conv length_Cons ends mid near_shift) auto
  next
    case False
    define u where "u \<longleftrightarrow> up \<and> (\<not> down \<or> scale \<le> 2 * r)"
    have eq: "shortest_digits (Suc n) incl num pl mi scale = ([nat (d mod 10)], u)"
      unfolding step u_def using False by (simp only: if_False)
    have v: "digit_value ([nat (d mod 10)], u) * scale = 10 * num - r + (if u then scale else 0)"
      using d0 d9 num by (simp add: digit_value_def algebra_simps mod_pos_pos_trivial)
    have "near incl ((num - mi) * 10) (10 * num - r + (if u then scale else 0)) ((num + pl) * 10)"
      using False Suc.prems(1,2) r by (auto simp: near_def u_def down_def up_def)
    with d0 d9 show ?thesis
      unfolding eq v by (simp only: fst_conv list.size add_0 One_nat_def [symmetric] power_one_right) simp
  qed
qed

subsection \<open>The scaling loops\<close>

lemma scale_up_end:
  assumes "0 < hi" "hi < scale * 10 ^ n" "0 \<le> k"
  shows "\<exists>j. scale_up n incl hi scale k = (scale * 10 ^ j, k + int j) \<and>
     (hi < scale * 10 ^ j \<or> \<not> incl \<and> hi = scale * 10 ^ j) \<and> (0 < j \<longrightarrow> scale * 10 ^ j \<le> 10 * hi)"
  using assms(2,3)
proof (induction n arbitrary: scale k)
  case 0
  then show ?case by (auto intro: exI [of _ 0])
next
  case (Suc n)
  show ?case
  proof (cases "hi > scale \<or> incl \<and> hi = scale")
    case True
    obtain j where j: "scale_up n incl hi (10 * scale) (k + 1) = (10 * scale * 10 ^ j, k + 1 + int j)"
      "hi < 10 * scale * 10 ^ j \<or> \<not> incl \<and> hi = 10 * scale * 10 ^ j" "0 < j \<longrightarrow> 10 * scale * 10 ^ j \<le> 10 * hi"
      using Suc.IH [of "10 * scale" "k + 1"] Suc.prems by (auto simp: algebra_simps)
    have "10 * scale * 10 ^ j \<le> 10 * hi" using j(3) True by (cases "j = 0") auto
    with j True show ?thesis by (intro exI [of _ "Suc j"]) (auto simp: algebra_simps)
  next
    case False
    then show ?thesis by (intro exI [of _ 0]) auto
  qed
qed

lemma scale_down_end:
  assumes "scale \<le> 10 * f * hi * 10 ^ n"
  shows "\<exists>j. scale_down n incl hi scale f k = (f * 10 ^ j, k - int j) \<and> scale \<le> 10 * (f * 10 ^ j) * hi \<and>
     (0 < j \<longrightarrow> f * 10 ^ j * hi < scale \<or> \<not> incl \<and> f * 10 ^ j * hi = scale)"
  using assms
proof (induction n arbitrary: f k)
  case 0
  then show ?case by (auto intro: exI [of _ 0])
next
  case (Suc n)
  show ?case
  proof (cases "10 * f * hi < scale \<or> \<not> incl \<and> 10 * f * hi = scale")
    case True
    obtain j where j: "scale_down n incl hi scale (10 * f) (k - 1) = (10 * f * 10 ^ j, k - 1 - int j)"
      "scale \<le> 10 * (10 * f * 10 ^ j) * hi"
      "0 < j \<longrightarrow> 10 * f * 10 ^ j * hi < scale \<or> \<not> incl \<and> 10 * f * 10 ^ j * hi = scale"
      using Suc.IH [of "10 * f" "k - 1"] Suc.prems by (auto simp: algebra_simps)
    have "10 * f * 10 ^ j * hi < scale \<or> \<not> incl \<and> 10 * f * 10 ^ j * hi = scale"
      using j(3) True by (cases "j = 0") auto
    with j(1,2) True show ?thesis by (intro exI [of _ "Suc j"]) (auto simp: algebra_simps)
  next
    case False
    then show ?thesis by (intro exI [of _ 0]) auto
  qed
qed

lemma scaling_end:
  assumes "0 < hi" "0 < scale" "hi < scale * 10 ^ n" "scale \<le> hi * 10 ^ n"
    and "scale_up n incl hi scale 0 = (scale', k')"
    and "(if k' = 0 then scale_down n incl hi scale' 1 0 else (1, k')) = (s, k)"
  shows "scale' = scale * 10 ^ nat k \<and> s = 10 ^ nat (- k) \<and>
     (s * hi < scale' \<or> \<not> incl \<and> s * hi = scale') \<and> scale' \<le> 10 * (s * hi)"
proof -
  obtain j where j: "scale' = scale * 10 ^ j" "k' = int j"
    "hi < scale' \<or> \<not> incl \<and> hi = scale'" "0 < j \<longrightarrow> scale' \<le> 10 * hi"
    using scale_up_end [OF assms(1,3), of 0 incl] assms(5) by auto
  show ?thesis
  proof (cases "j = 0")
    case True
    have "0 \<le> hi * 10 ^ n" using assms(1) by simp
    then have "scale' \<le> 10 * 1 * hi * 10 ^ n" using True j(1) assms(4) by (simp add: mult.assoc)
    then obtain i where "(s, k) = (10 ^ i, - int i)" "scale' \<le> 10 * 10 ^ i * hi"
      "0 < i \<longrightarrow> 10 ^ i * hi < scale' \<or> \<not> incl \<and> 10 ^ i * hi = scale'"
      using scale_down_end [of scale' 1 hi n incl 0] assms(6) True j(2) by auto
    with True j show ?thesis by (cases "i = 0") auto
  next
    case False
    with assms(6) j show ?thesis by auto
  qed
qed

subsection \<open>Carries\<close>

lemma round_up_value:
  assumes "\<forall>d \<in> set ds. d \<le> 9"
  shows "digits_int (fst (round_up ds)) + (if snd (round_up ds) then 10 ^ length ds else 0) = digits_int ds + 1
    \<and> (\<forall>d \<in> set (fst (round_up ds)). d \<le> 9) \<and> length (fst (round_up ds)) = length ds"
  using assms
proof (induction ds)
  case (Cons d ds)
  obtain ds' c where r: "round_up ds = (ds', c)" by fastforce
  have IH: "digits_int ds' + (if c then 10 ^ length ds else 0) = digits_int ds + 1"
    "\<forall>d \<in> set ds'. d \<le> 9" "length ds' = length ds" and d: "d \<le> 9"
    using Cons r by auto
  show ?case
  proof (cases c)
    case True
    have "9 \<le> d \<Longrightarrow> d = 9" using d by simp
    with IH True r d show ?thesis by (auto simp: algebra_simps)
  next
    case False
    with IH r d show ?thesis by simp
  qed
qed simp

lemma carry_up_value:
  assumes "carry_up ds u k = (ds', k')" "\<forall>d \<in> set ds. d \<le> 9"
  shows "digits_int ds' = digit_value (ds, u)" "k' - int (length ds') = k - int (length ds)"
    "\<forall>d \<in> set ds'. d \<le> 9"
  using assms round_up_value [OF assms(2)]
  by (auto simp: carry_up_def digit_value_def split: if_splits prod.splits)

subsection \<open>The interval of a float\<close>

definition f64_mantissa :: "f64 \<Rightarrow> int" where
  "f64_mantissa b = (if f64_exp b = 0 then f64_frac b else f64_frac b + 2 ^ 52)"

definition f64_unit :: "f64 \<Rightarrow> int" where
  "f64_unit b = max 1 (f64_exp b) - 1075"

definition gap_below :: "f64 \<Rightarrow> int" where
  "gap_below b = (if f64_frac b = 0 \<and> f64_exp b > 1 then 1 else 2)"

definition enclosed :: "bool \<Rightarrow> real \<Rightarrow> real \<Rightarrow> real \<Rightarrow> bool" where
  "enclosed incl lo v hi \<longleftrightarrow> lo \<le> v \<and> v \<le> hi \<and> (incl \<or> lo < v \<and> v < hi)"

definition rounds_to :: "f64 \<Rightarrow> real \<Rightarrow> bool" where
  "rounds_to b v \<longleftrightarrow>
     enclosed (even (f64_mantissa b))
       (of_int (4 * f64_mantissa b - gap_below b) / 4 * 2 powi f64_unit b) v
       (of_int (4 * f64_mantissa b + 2) / 4 * 2 powi f64_unit b)"

lemma enclosed_scale:
  "0 < c \<Longrightarrow> enclosed incl (lo * c) (v * c) (hi * c) = enclosed incl lo v hi"
  by (simp add: enclosed_def)

lemma enclosed_of_int: "enclosed incl (of_int lo) (of_int v) (of_int hi) = near incl lo v hi"
  by (simp add: enclosed_def near_def)

lemma f64_fields:
  "0 \<le> f64_exp b" "f64_exp b < 2048" "0 \<le> f64_frac b" "f64_frac b < 2 ^ 52"
  by (simp_all add: f64_exp_def f64_frac_def)

lemma powi_parts: "(c :: real) powi k = c ^ nat k / c ^ nat (- k)"
  by (simp add: power_int_def divide_inverse power_inverse)

lemma unit_range:
  assumes "f64_finite b"
  shows "nat (f64_unit b) \<le> 971" "nat (- f64_unit b) \<le> 1074"
  using f64_fields(1,2) [of b] assms by (auto simp: f64_unit_def f64_finite_def)

lemma mantissa_range:
  assumes "\<not> (f64_exp b = 0 \<and> f64_frac b = 0)"
  shows "1 \<le> f64_mantissa b" "f64_mantissa b < 2 ^ 53"
    "gap_below b = 1 \<Longrightarrow> f64_mantissa b = 2 ^ 52" "gap_below b = 1 \<or> gap_below b = 2"
  using f64_fields(3,4) [of b] assms by (auto simp: f64_mantissa_def gap_below_def split: if_splits)

text \<open>The loops of \<open>f64_digits\<close> end by themselves, and the digits lie in the rounding interval.\<close>

lemma f64_digits_round:
  assumes fin: "f64_finite b" and nz: "\<not> (f64_exp b = 0 \<and> f64_frac b = 0)"
    and ds: "f64_digits b = (ds, k)"
  shows "rounds_to b (of_int (digits_int ds) * 10 powi (k - int (length ds)))" "\<forall>d \<in> set ds. d \<le> 9"
proof -
  define m where "m = f64_mantissa b"
  define x where "x = f64_unit b"
  define c where "c = gap_below b"
  define up :: int where "up = 2 ^ nat x"
  define dn :: int where "dn = 2 ^ nat (- x)"
  define incl where "incl = even m"
  obtain scale k1 where up1: "scale_up 400 incl (4 * m * up + 2 * up) (4 * dn) 0 = (scale, k1)" by fastforce
  obtain s k2 where dn1: "(if k1 = 0 then scale_down 400 incl (4 * m * up + 2 * up) scale 1 0 else (1, k1)) = (s, k2)"
    by fastforce
  define p where "p = shortest_digits 17 incl (s * (4 * m * up)) (s * (2 * up)) (s * (c * up)) scale"
  have carry: "carry_up (fst p) (snd p) k2 = (ds, k)"
    using ds unfolding f64_digits_def Let_def f64_mantissa_def [symmetric] f64_unit_def [symmetric]
      gap_below_def [symmetric] m_def [symmetric] x_def [symmetric] c_def [symmetric] up_def [symmetric]
      dn_def [symmetric] incl_def [symmetric] up1 prod.case dn1 p_def [symmetric]
    by (simp add: split_beta)
  note M = mantissa_range [OF nz, folded m_def c_def]
  have pos: "0 < up" "0 < dn" by (simp_all add: up_def dn_def)
  have "up \<le> 2 ^ 971" "dn \<le> 2 ^ 1074"
    unfolding up_def dn_def x_def
    by (rule power_increasing [OF unit_range(1) [OF fin] one_le_numeral],
        rule power_increasing [OF unit_range(2) [OF fin] one_le_numeral])
  moreover have "1 \<le> up" "1 \<le> dn" by (simp_all add: up_def dn_def)
  ultimately have updn: "up \<le> 2 ^ 971" "dn \<le> 2 ^ 1074" "1 \<le> up" "1 \<le> dn" .
  have hi: "4 * m * up + 2 * up = (4 * m + 2) * up" by (simp add: algebra_simps)
  have "(4 * m + 2) * up \<le> 2 ^ 56 * 2 ^ 971" using M(1,2) updn(1) pos by (intro mult_mono) auto
  also have "\<dots> < 4 * 1 * 10 ^ 400" by simp
  also have "\<dots> \<le> 4 * dn * 10 ^ 400" using updn(4) by simp
  finally have f1: "4 * m * up + 2 * up < 4 * dn * 10 ^ 400" unfolding hi .
  have "4 * dn \<le> 4 * 2 ^ 1074" using updn(2) by simp
  also have "\<dots> \<le> 1 * 10 ^ 400" by simp
  also have "\<dots> \<le> (4 * m * up + 2 * up) * 10 ^ 400"
    using M(1) pos mult_mono [of 1 "4 * m + 2" 1 up] unfolding hi by (intro mult_right_mono) auto
  finally have f2: "4 * dn \<le> (4 * m * up + 2 * up) * 10 ^ 400" .
  have hi0: "0 < 4 * m * up + 2 * up" using M(1) pos unfolding hi by simp
  have dn0: "0 < 4 * dn" using pos by simp
  have S: "scale = 4 * dn * 10 ^ nat k2" "s = 10 ^ nat (- k2)"
    "s * (4 * m * up + 2 * up) < scale \<or> \<not> incl \<and> s * (4 * m * up + 2 * up) = scale"
    "scale \<le> 10 * (s * (4 * m * up + 2 * up))"
    using scaling_end [OF hi0 dn0 f1 f2 up1 dn1] by blast+
  have su: "0 < s * up" using S(2) pos by simp
  have "10 * (4 * m + 2) < (2 + c) * 10 ^ 17" using M by auto
  then have "10 * (4 * m + 2) * (s * up) < (2 + c) * 10 ^ 17 * (s * up)"
    using su by (rule mult_strict_right_mono)
  then have fuel: "scale < (s * (2 * up) + s * (c * up)) * 10 ^ 17"
    using S(4) by (simp add: algebra_simps)
  have "c * (s * up) \<le> 4 * m * (s * up)" using M su by (intro mult_right_mono) auto
  then have le: "s * (c * up) \<le> s * (4 * m * up)" by (simp add: algebra_simps)
  have cp: "0 < s * (c * up)" using M(4) su by auto
  note N = shortest_digits_near [OF _ cp le _ fuel, of incl, folded p_def]
  have N: "near incl ((s * (4 * m * up) - s * (c * up)) * 10 ^ length (fst p)) (digit_value p * scale)
      ((s * (4 * m * up) + s * (2 * up)) * 10 ^ length (fst p))" "\<forall>d \<in> set (fst p). d \<le> 9"
    using N su S(3) by (simp_all add: algebra_simps)
  note C = carry_up_value [OF carry N(2)]
  define t where "t = 4 * real_of_int dn * 10 ^ nat (- k2) * 10 ^ length (fst p)"
  have "0 < t" using pos(2) by (simp add: t_def)
  have k: "k - int (length ds) = k2 - int (length (fst p))" using C(2) by simp
  have v: "of_int (digits_int ds) * 10 powi (k - int (length ds)) * t = of_int (digit_value p * scale)"
    unfolding k C(1) prod.collapse t_def S(1)
    by (simp add: power_int_diff powi_parts [of 10 k2] field_simps)
  have x2: "2 powi x * of_int dn = real_of_int up"
    by (simp add: powi_parts up_def dn_def)
  have lo: "of_int (4 * m - c) / 4 * 2 powi x * t =
      of_int ((s * (4 * m * up) - s * (c * up)) * 10 ^ length (fst p))"
    and hi: "of_int (4 * m + 2) / 4 * 2 powi x * t =
      of_int ((s * (4 * m * up) + s * (2 * up)) * 10 ^ length (fst p))"
    using S(2) x2 [symmetric] by (simp_all add: t_def field_simps)
  have "enclosed incl (of_int (4 * m - c) / 4 * 2 powi x * t) (of_int (digits_int ds) * 10 powi (k - int (length ds)) * t)
      (of_int (4 * m + 2) / 4 * 2 powi x * t)"
    unfolding lo hi v enclosed_of_int by (rule N(1))
  then have "enclosed incl (of_int (4 * m - c) / 4 * 2 powi x) (of_int (digits_int ds) * 10 powi (k - int (length ds)))
      (of_int (4 * m + 2) / 4 * 2 powi x)"
    by (simp only: enclosed_scale [OF \<open>0 < t\<close>])
  then show "rounds_to b (of_int (digits_int ds) * 10 powi (k - int (length ds)))"
    by (simp only: rounds_to_def incl_def m_def c_def x_def)
  show "\<forall>d \<in> set ds. d \<le> 9" by (rule C(3))
qed

subsection \<open>Reading\<close>

lemma log2_fuel_bounds:
  assumes "1 \<le> n" "n < 2 ^ k"
  shows "0 \<le> log2_fuel k n" "2 ^ nat (log2_fuel k n) \<le> n" "n < 2 ^ Suc (nat (log2_fuel k n))"
proof -
  have "0 \<le> log2_fuel k n \<and> 2 ^ nat (log2_fuel k n) \<le> n \<and> n < 2 ^ Suc (nat (log2_fuel k n))"
    using assms
  proof (induction k arbitrary: n)
    case (Suc k)
    show ?case
    proof (cases "n < 2")
      case False
      then have "1 \<le> n div 2" "n div 2 < 2 ^ k" using Suc.prems by auto
      note IH = Suc.IH [OF this]
      define l where "l = nat (log2_fuel k (n div 2))"
      have "2 * 2 ^ l \<le> n" "n < 2 * (2 ^ Suc l)" using IH unfolding l_def by auto
      moreover have "nat (1 + log2_fuel k (n div 2)) = Suc l" using IH by (simp add: l_def nat_add_distrib)
      ultimately show ?thesis using False IH by simp
    qed (use Suc.prems in auto)
  qed simp
  then show "0 \<le> log2_fuel k n" "2 ^ nat (log2_fuel k n) \<le> n" "n < 2 ^ Suc (nat (log2_fuel k n))"
    by blast+
qed

lemma log2_fuel_powi:
  assumes "1 \<le> n" "n < 2 ^ k"
  shows "2 powi log2_fuel k n \<le> (of_int n :: real)" "(of_int n :: real) < 2 powi (log2_fuel k n + 1)"
proof -
  note B = log2_fuel_bounds [OF assms]
  have "real_of_int (2 ^ nat (log2_fuel k n)) \<le> of_int n" using B(2) by (simp only: of_int_le_iff)
  moreover have "real_of_int n < of_int (2 ^ Suc (nat (log2_fuel k n)))" using B(3) by (simp only: of_int_less_iff)
  moreover have "nat (log2_fuel k n + 1) = Suc (nat (log2_fuel k n))" using B(1) by simp
  ultimately show "2 powi log2_fuel k n \<le> real_of_int n" "real_of_int n < 2 powi (log2_fuel k n + 1)"
    using B(1) by (simp_all add: power_int_def)
qed

lemma pow2_powi: "real_of_int (pow2 e) = 2 powi e * of_int (pow2 (- e))"
  by (simp add: pow2_def powi_parts)

lemma pow2_pos [simp]: "0 < pow2 e"
  by (simp add: pow2_def)

text \<open>Rounding half to even.\<close>

lemma scaled_round_eq:
  assumes "0 < den" and v: "v = of_int num / of_int den"
    and e: "enclosed (even m) (of_int (2 * m - 1) / 2 * 2 powi e) v (of_int (2 * m + 1) / 2 * 2 powi e)"
  shows "scaled_round num den e = m"
proof -
  define n where "n = num * pow2 (- e)"
  define d where "d = den * pow2 e"
  have d: "0 < d" using assms(1) by (simp add: d_def)
  define c where "c = 2 * real_of_int (den * pow2 (- e))"
  have "0 < c" using assms(1) by (simp add: c_def)
  have "enclosed (even m) (of_int (2 * m - 1) / 2 * 2 powi e * c) (v * c) (of_int (2 * m + 1) / 2 * 2 powi e * c)"
    using e by (simp only: enclosed_scale [OF \<open>0 < c\<close>])
  moreover have "of_int (2 * m - 1) / 2 * 2 powi e * c = of_int ((2 * m - 1) * d)"
    "of_int (2 * m + 1) / 2 * 2 powi e * c = of_int ((2 * m + 1) * d)"
    by (simp_all add: c_def d_def pow2_powi [of e])
  moreover have "v * c = of_int (2 * n)" using assms(1) by (simp add: v c_def n_def)
  ultimately have N: "near (even m) ((2 * m - 1) * d) (2 * n) ((2 * m + 1) * d)"
    by (simp only: enclosed_of_int)
  then have lo: "2 * (m * d) - d \<le> 2 * n" and hi: "2 * n \<le> 2 * (m * d) + d"
    and odd: "even m \<or> 2 * (m * d) - d < 2 * n \<and> 2 * n < 2 * (m * d) + d"
    by (auto simp: near_def left_diff_distrib distrib_right mult.assoc)
  have round: "scaled_round num den e =
      (if 2 * (n mod d) > d \<or> 2 * (n mod d) = d \<and> odd (n div d) then n div d + 1 else n div d)"
    by (simp only: scaled_round_def Let_def n_def d_def)
  show ?thesis
  proof (cases "m * d \<le> n")
    case True
    have n: "n = d * m + (n - m * d)" by simp
    have r: "0 \<le> n - m * d" "n - m * d < d" using True hi d by linarith+
    have "n div d = m" "n mod d = n - m * d"
      using int_div_pos_eq [OF n r] int_mod_pos_eq [OF n r] .
    with odd hi show ?thesis by (auto simp: round)
  next
    case False
    have n: "n = d * (m - 1) + (n - m * d + d)" by (simp add: right_diff_distrib mult.commute)
    have r: "0 \<le> n - m * d + d" "n - m * d + d < d" using False lo d by linarith+
    have "n div d = m - 1" "n mod d = n - m * d + d"
      using int_div_pos_eq [OF n r] int_mod_pos_eq [OF n r] .
    with odd lo show ?thesis by (auto simp: round)
  qed
qed

lemma pow2_53: "pow2 53 = 2 ^ 53" "pow2 52 = 2 ^ 52" "pow2 11 = 2048" "(53::int) - 1 = 52"
  by (simp_all add: pow2_def)

text \<open>The exponent found: the value has 53 bits above it.\<close>

definition top_exp :: "nat \<Rightarrow> int \<Rightarrow> int \<Rightarrow> int" where
  "top_exp fuel num den =
     (let e0 = log2_fuel fuel num - log2_fuel fuel den - 53
      in if num * pow2 (- e0) \<ge> den * pow2 e0 * pow2 53 then e0 + 1 else e0)"

lemma top_exp_bounds:
  assumes "1 \<le> num" "1 \<le> den" "num < 2 ^ fuel" "den < 2 ^ fuel" and v: "(v :: real) = of_int num / of_int den"
  shows "2 powi (top_exp fuel num den + 52) \<le> v" "v < 2 powi (top_exp fuel num den + 53)"
proof -
  define a where "a = log2_fuel fuel num"
  define c where "c = log2_fuel fuel den"
  define e0 where "e0 = a - c - 53"
  note A = log2_fuel_powi [OF assms(1,3), folded a_def]
  note C = log2_fuel_powi [OF assms(2,4), folded c_def]
  have den: "0 < real_of_int den" using assms(2) by simp
  have "2 powi a / 2 powi (c + 1) < v"
    unfolding v using A(1) C(2) den by (intro frac_less2) simp_all
  moreover have "v < 2 powi (a + 1) / 2 powi c"
    unfolding v using A(2) C(1) den assms(1) by (intro frac_less) simp_all
  moreover have "e0 + 52 = a - (c + 1)" "e0 + 54 = a + 1 - c" by (simp_all add: e0_def)
  then have "(2 :: real) powi (e0 + 52) = 2 powi a / 2 powi (c + 1)" "(2 :: real) powi (e0 + 54) = 2 powi (a + 1) / 2 powi c"
    by (simp_all only: power_int_diff zero_neq_numeral [symmetric] not_False_eq_True simp_thms)
  ultimately have b: "2 powi (e0 + 52) < v" "v < 2 powi (e0 + 54)"
    by simp_all
  have "real_of_int (den * pow2 e0 * pow2 53) \<le> of_int (num * pow2 (- e0)) \<longleftrightarrow> 2 powi (e0 + 53) \<le> v"
    using den pow2_pos [of "- e0"]
    by (simp add: v pow2_powi [of e0] pow2_53 power_int_add field_simps del: pow2_pos)
  then have "(den * pow2 e0 * pow2 53 \<le> num * pow2 (- e0)) \<longleftrightarrow> 2 powi (e0 + 53) \<le> v"
    by (simp only: of_int_le_iff)
  then have "top_exp fuel num den = (if 2 powi (e0 + 53) \<le> v then e0 + 1 else e0)"
    by (simp add: top_exp_def Let_def e0_def a_def c_def)
  with b show "2 powi (top_exp fuel num den + 52) \<le> v" "v < 2 powi (top_exp fuel num den + 53)"
    by (simp_all add: add.commute)
qed

lemma float_bits_top:
  "float_bits f64_format fuel num den =
     (let e = max (- 1074) (top_exp fuel num den); q = scaled_round num den e;
          (q, e) = (if q = pow2 53 then (pow2 (53 - 1), e + 1) else (q, e))
      in if q < pow2 (53 - 1) then q
         else if e - - 1074 + 1 \<ge> pow2 11 - 1 then (pow2 11 - 1) * pow2 (53 - 1)
         else (e - - 1074 + 1) * pow2 (53 - 1) + (q - pow2 (53 - 1)))"
  by (simp only: float_bits_def f64_format_def float_format.select_convs top_exp_def Let_def of_nat_numeral)

lemma powi_mono_iff: "((2 :: real) powi a < 2 powi b) = (a < b)"
  by (metis less_le_not_le linorder_not_less one_less_numeral_iff power_int_increasing power_int_strict_increasing semiring_norm(76) one_le_numeral)

lemma float_bits_rounds:
  assumes "1 \<le> num" "1 \<le> den" "num < 2 ^ fuel" "den < 2 ^ fuel"
    and fin: "f64_finite b" and nz: "\<not> (f64_exp b = 0 \<and> f64_frac b = 0)"
    and r: "rounds_to b (of_int num / of_int den)"
  shows "float_bits f64_format fuel num den = f64_exp b * 2 ^ 52 + f64_frac b"
proof -
  define v where "v = real_of_int num / of_int den"
  define m where "m = f64_mantissa b"
  define x where "x = f64_unit b"
  define e where "e = max (- 1074) (top_exp fuel num den)"
  note T = top_exp_bounds [OF assms(1-4) v_def]
  note M = mantissa_range [OF nz, folded m_def]
  have p: "0 < (2 :: real) powi x" by simp
  have E: "enclosed (even m) (of_int (4 * m - gap_below b) / 4 * 2 powi x) v (of_int (4 * m + 2) / 4 * 2 powi x)"
    using r by (simp only: rounds_to_def v_def m_def x_def)
  have den: "0 < den" using assms(2) by simp
  have "v \<le> of_int (4 * m + 2) / 4 * 2 powi x" using E by (simp add: enclosed_def)
  also have "\<dots> < 2 ^ 53 * 2 powi x" using M(2) by (intro mult_strict_right_mono) auto
  finally have "v < 2 powi (x + 53)" by (simp add: power_int_add mult.commute)
  with T(1) have top: "top_exp fuel num den \<le> x" using powi_mono_iff [of "top_exp fuel num den + 52" "x + 53"] by linarith
  have xe: "x = max 1 (f64_exp b) - 1075" "f64_exp b \<le> 2046" "0 \<le> f64_exp b"
    using fin f64_fields [of b] by (auto simp: x_def f64_unit_def f64_finite_def)
  show ?thesis
  proof (cases "e = x")
    case True
    have "enclosed (even m) (of_int (2 * m - 1) / 2 * 2 powi e) v (of_int (2 * m + 1) / 2 * 2 powi e)"
    proof (cases "gap_below b = 1")
      case gap: True
      have "of_int (2 * m - 1) / 2 * (2 :: real) powi x \<le> of_int (4 * m - gap_below b) / 4 * 2 powi x"
        using gap by (intro mult_right_mono) auto
      then have "of_int (2 * m - 1) / 2 * 2 powi x \<le> v"
        by (rule order_trans) (use E in \<open>simp only: enclosed_def\<close>)
      moreover have "v \<le> of_int (2 * m + 1) / 2 * 2 powi x"
        using E unfolding enclosed_def by (simp add: field_simps)
      moreover have "even m" using M(3) [OF gap] by simp
      ultimately show ?thesis using True by (simp only: enclosed_def) simp
    next
      case gap: False
      with M(4) have "gap_below b = 2" by simp
      moreover have "of_int (4 * m - 2) / 4 = (of_int (2 * m - 1) / 2 :: real)"
        "of_int (4 * m + 2) / 4 = (of_int (2 * m + 1) / 2 :: real)" by simp_all
      ultimately show ?thesis using E True by (simp only:)
    qed
    then have "scaled_round num den e = m" by (rule scaled_round_eq [OF den v_def])
    with M True xe f64_fields(3) [of b] show ?thesis
      by (auto simp: float_bits_top Let_def pow2_53 e_def [symmetric] m_def f64_mantissa_def split: if_splits)
  next
    case False
    with top xe have small: "top_exp fuel num den < x" "1 < f64_exp b" by (auto simp: e_def)
    have m52: "m = f64_frac b + 2 ^ 52" using small by (simp add: m_def f64_mantissa_def)
    note T(2)
    also have "(2 :: real) powi (top_exp fuel num den + 53) \<le> 2 powi (x + 52)"
      using small by (intro power_int_increasing) auto
    also have "\<dots> = 2 ^ 52 * 2 powi x" by (simp add: power_int_add)
    finally have vtop: "v < 2 ^ 52 * 2 powi x" .
    have "of_int (4 * m - gap_below b) / 4 * 2 powi x \<le> v" using E by (simp add: enclosed_def)
    also note vtop
    finally have "of_int (4 * m - gap_below b) / 4 < (2 ^ 52 :: real)"
      using p by (simp only: mult_less_cancel_right_pos)
    then have "real_of_int (4 * m - gap_below b) < of_int (2 ^ 54)" by simp
    then have "4 * f64_frac b < gap_below b" unfolding of_int_less_iff m52 by simp
    then have e2: "gap_below b = 1" using small(2) f64_fields(3) [of b] by (auto simp: gap_below_def split: if_splits)
    have "2 powi (x + 51) = 2 ^ 51 * (2 :: real) powi x" by (simp add: power_int_add)
    also have "\<dots> < of_int (4 * m - gap_below b) / 4 * 2 powi x"
      unfolding M(3) [OF e2] e2 by (intro mult_strict_right_mono) simp_all
    also have "\<dots> \<le> v" using E by (simp add: enclosed_def)
    also note T(2)
    finally have "x + 51 < top_exp fuel num den + 53" by (simp only: powi_mono_iff)
    with small xe have e: "e = x - 1" "gap_below b = 1" using e2 by (auto simp: e_def)
    have "2 powi x = (2 :: real) * 2 powi e" by (simp add: e(1) power_int_diff)
    then have "enclosed True (of_int (2 * 2 ^ 53 - 1) / 2 * 2 powi e) v (of_int (2 * 2 ^ 53 + 1) / 2 * 2 powi e)"
      using E e M(3) vtop by (auto simp: enclosed_def)
    then have "scaled_round num den e = 2 ^ 53" by (intro scaled_round_eq [OF den v_def]) simp
    moreover have "f64_frac b = 0 \<and> f64_exp b > 1" using e(2) by (simp add: gap_below_def split: if_splits)
    ultimately show ?thesis using e xe
      by (simp add: float_bits_top Let_def pow2_53 e_def [symmetric])
  qed
qed

subsection \<open>From digits to text and back\<close>

lemma span_show_digits:
  assumes "\<forall>d \<in> set ds. d \<le> 9" and "\<And>c t. rest = c # t \<Longrightarrow> \<not> is_ascii_digit c"
  shows "span_digits (show_digits ds @ rest) = (ds, rest)"
  using assms(1)
proof (induction ds)
  case Nil
  then show ?case using assms(2) by (cases rest) (simp_all add: show_digits_def)
next
  case (Cons d ds)
  then have "d < 10" by simp
  with Cons show ?case by (simp add: show_digits_def)
qed

lemma show_digits_append: "show_digits (ds @ es) = show_digits ds @ show_digits es"
  by (simp add: show_digits_def)

lemma digit_char_0 [simp]: "digit_char 0 = CHR ''0''"
  by code_simp

lemma show_digits_zeros: "show_digits (replicate n 0) = replicate n CHR ''0''"
  by (simp add: show_digits_def)

lemma parse_decimal_parts:
  assumes "\<forall>d \<in> set (whole @ tail). d \<le> 9" "whole @ tail \<noteq> []"
  shows "parse_decimal (show_digits whole @ (if tail = [] then [] else CHR ''.'' # show_digits tail)) =
    Some (digits_int (whole @ tail), - int (length tail), length (whole @ tail))"
proof (cases "tail = []")
  case True
  with assms show ?thesis
    using span_show_digits [of whole "[]"] by (simp add: parse_decimal_def parse_exponent_def)
next
  case False
  have "span_digits (show_digits whole @ CHR ''.'' # show_digits tail) = (whole, CHR ''.'' # show_digits tail)"
    using assms by (intro span_show_digits) (auto simp: is_ascii_digit_def)
  moreover have "span_digits (show_digits tail) = (tail, [])"
    using assms span_show_digits [of tail "[]"] by simp
  ultimately show ?thesis using False assms by (simp add: parse_decimal_def parse_exponent_def)
qed

text \<open>A displayed decimal is read as the digits with the power of ten.\<close>

lemma parse_dec_str:
  assumes "ds \<noteq> []" "\<forall>d \<in> set ds. d \<le> 9"
  obtains m e n where "parse_decimal (dec_str ds k) = Some (m, e, n)" "0 \<le> m" "m < 10 ^ n"
    "(of_int m :: real) * 10 powi e = of_int (digits_int ds) * 10 powi (k - int (length ds))" "0 < n"
proof -
  consider "k \<le> 0" | "0 < k" "k < int (length ds)" | "0 < k" "int (length ds) \<le> k" by linarith
  then show ?thesis
  proof cases
    case 1
    let ?tail = "replicate (nat (- k)) 0 @ ds"
    have "dec_str ds k = show_digits [0] @ CHR ''.'' # show_digits ?tail"
      using 1 by (simp add: dec_str_def show_digits_append show_digits_zeros) (simp add: show_digits_def)
    moreover have pr: "\<forall>d \<in> set ([0] @ ?tail). d \<le> 9" "[0] @ ?tail \<noteq> []" "?tail \<noteq> []"
      using assms by auto
    ultimately have p: "parse_decimal (dec_str ds k) = Some (digits_int ([0] @ ?tail), - int (length ?tail), length ([0] @ ?tail))"
      using parse_decimal_parts [OF pr(1,2)] pr(3) by (simp only: if_False)
    have "digits_int ([0] @ ?tail) < 10 ^ length ([0] @ ?tail)"
      using assms(2) by (intro digits_int_less) auto
    then show ?thesis using 1 by (intro that [OF p]) simp_all
  next
    case 2
    have l: "take (nat k) ds @ drop (nat k) ds = ds" by simp
    have ne: "drop (nat k) ds \<noteq> []" using 2 by simp
    then have "dec_str ds k = show_digits (take (nat k) ds) @ CHR ''.'' # show_digits (drop (nat k) ds)"
      using 2 by (simp add: dec_str_def)
    then have p: "parse_decimal (dec_str ds k) = Some (digits_int ds, - int (length (drop (nat k) ds)), length ds)"
      using parse_decimal_parts [of "take (nat k) ds" "drop (nat k) ds"] assms ne unfolding l by simp
    show ?thesis using 2 assms digits_int_less [OF assms(2)]
      by (intro that [OF p]) (simp_all add: of_nat_diff)
  next
    case 3
    let ?whole = "ds @ replicate (nat k - length ds) 0"
    have "dec_str ds k = show_digits ?whole"
      using 3 by (simp add: dec_str_def show_digits_append show_digits_zeros)
    moreover have pr: "\<forall>d \<in> set ?whole. d \<le> 9" "?whole \<noteq> []" using assms by auto
    ultimately have p: "parse_decimal (dec_str ds k) = Some (digits_int ?whole, 0, length ?whole)"
      using parse_decimal_parts [of ?whole "[]"] pr
      by (simp only: append_Nil2 if_True simp_thms) simp
    have "digits_int ?whole < 10 ^ length ?whole"
      using assms(2) by (intro digits_int_less) auto
    moreover have "10 powi (k - int (length ds)) = (10 :: real) ^ (nat k - length ds)"
      using 3 by (simp add: power_int_def nat_diff_distrib)
    ultimately show ?thesis using 3 assms by (intro that [OF p]) simp_all
  qed
qed

lemma f64_word: "word_of_int (f64_exp b * 2 ^ 52 + f64_frac b + (if f64_neg b then 2 ^ 63 else 0)) = b"
proof -
  define q d r where "q = uint b div 2 ^ 63" and "d = uint b div 2 ^ 52" and "r = uint b mod 2 ^ 52"
  have u: "0 \<le> uint b" "uint b < 2 ^ 64" using uint_lt2p [of b] by simp_all
  have "d div 2048 = q" by (simp add: d_def q_def flip: zdiv_zmult2_eq)
  then have "d = 2048 * q + d mod 2048" using mult_div_mod_eq [of 2048 d] by simp
  moreover have "uint b = 2 ^ 52 * d + r" unfolding d_def r_def by (rule mult_div_mod_eq [symmetric])
  moreover have "q = (if f64_neg b then 1 else 0)" using u by (auto simp: q_def f64_neg_def)
  ultimately have "uint b = d mod 2048 * 2 ^ 52 + r + (if f64_neg b then 2 ^ 63 else 0)"
    by (auto split: if_splits)
  then have "f64_exp b * 2 ^ 52 + f64_frac b + (if f64_neg b then 2 ^ 63 else 0) = uint b"
    by (simp only: f64_exp_def f64_frac_def d_def r_def)
  then show ?thesis by (simp only: word_of_int_uint)
qed

lemma pow_le_fuel: "10 ^ n \<le> (2 :: int) ^ (4 * n)"
  by (simp add: power_mult power_mono)

text \<open>Reading a displayed float gives the same float.\<close>

lemma parse_float_digits:
  assumes "f64_finite b" "\<not> (f64_exp b = 0 \<and> f64_frac b = 0)" "f64_digits b = (ds, k)"
  shows "\<exists>m e n. parse_decimal (dec_str ds k) = Some (m, e, n) \<and> m \<noteq> 0 \<and>
    float_bits f64_format (4 * (n + nat \<bar>e\<bar>)) (m * 10 ^ nat e) (10 ^ nat (- e)) = f64_exp b * 2 ^ 52 + f64_frac b"
proof -
  note R = f64_digits_round [OF assms]
  have "ds \<noteq> []" using f64_digits_nonempty [of b] assms(3) by simp
  from parse_dec_str [OF this R(2), of k] obtain m e n where p: "parse_decimal (dec_str ds k) = Some (m, e, n)"
    and m: "0 \<le> m" "m < 10 ^ n"
    and v: "(of_int m :: real) * 10 powi e = of_int (digits_int ds) * 10 powi (k - int (length ds))" and n: "0 < n" .
  have v: "real_of_int (m * 10 ^ nat e) / of_int (10 ^ nat (- e)) = of_int (digits_int ds) * 10 powi (k - int (length ds))"
    by (simp add: v [symmetric] powi_parts [of 10 e])
  have "0 < of_int (4 * f64_mantissa b - gap_below b) / 4 * (2 :: real) powi f64_unit b"
    using mantissa_range [OF assms(2)] by (auto intro!: mult_pos_pos)
  with R(1) have "digits_int ds \<noteq> 0" by (auto simp: rounds_to_def enclosed_def)
  then have m0: "m \<noteq> 0" using v by auto
  have one: "1 \<le> m * 10 ^ nat e" using m m0 by (simp add: mult_pos_pos int_one_le_iff_zero_less)
  have "m * 10 ^ nat e < 10 ^ n * 10 ^ nat e" using m(2) by simp
  also have "\<dots> = 10 ^ (n + nat e)" by (simp add: power_add)
  also have "\<dots> \<le> 10 ^ (n + nat \<bar>e\<bar>)" by (intro power_increasing) auto
  also note pow_le_fuel
  finally have f1: "m * 10 ^ nat e < 2 ^ (4 * (n + nat \<bar>e\<bar>))" .
  have "(10 :: int) ^ nat (- e) < 10 ^ (n + nat \<bar>e\<bar>)" using n by (intro power_strict_increasing) auto
  also note pow_le_fuel
  finally have f2: "10 ^ nat (- e) < (2 :: int) ^ (4 * (n + nat \<bar>e\<bar>))" .
  from float_bits_rounds [OF one _ f1 f2 assms(1,2)] R(1) p m0 show ?thesis unfolding v by auto
qed

lemma lower_digit: "is_ascii_digit c \<Longrightarrow> lower_byte c = c"
  by (simp add: lower_byte_def is_ascii_uppercase_def is_ascii_digit_def)

lemma dec_str_head:
  assumes "ds \<noteq> []"
  shows "\<exists>c t. dec_str ds k = c # t \<and> is_ascii_digit c"
proof -
  obtain d ds' where ds: "ds = d # ds'" using assms by (cases ds) auto
  have "is_ascii_digit (digit_char (d mod 10))" by simp
  moreover have "nat k = Suc (nat (k - 1))" if "0 < k" using that by simp
  ultimately show ?thesis unfolding ds by (cases "0 < k") (auto simp: dec_str_def show_digits_def)
qed

lemma parse_f64_display:
  assumes "f64_finite b"
  shows "parse_f64 (f64_display b) = Some b"
proof (cases "f64_exp b = 0 \<and> f64_frac b = 0")
  case True
  have "parse_f64 ''0'' = Some 0" "parse_f64 ''-0'' = Some (word_of_int (2 ^ 63))" by code_simp+
  with True assms f64_word [of b] show ?thesis by (cases "f64_neg b") (simp_all add: f64_display_def)
next
  case False
  obtain ds k where ds: "f64_digits b = (ds, k)" by fastforce
  obtain m e n where p: "parse_decimal (dec_str ds k) = Some (m, e, n)" "m \<noteq> 0"
    "float_bits f64_format (4 * (n + nat \<bar>e\<bar>)) (m * 10 ^ nat e) (10 ^ nat (- e)) = f64_exp b * 2 ^ 52 + f64_frac b"
    using parse_float_digits [OF assms False ds] by blast
  have "ds \<noteq> []" using f64_digits_nonempty [of b] ds by simp
  then obtain c t where h: "dec_str ds k = c # t" "is_ascii_digit c" using dec_str_head by blast
  have l: "to_ascii_lowercase (dec_str ds k) \<notin> {''inf'', ''infinity'', ''nan''}"
    using h lower_digit [OF h(2)] by (auto simp: to_ascii_lowercase_def is_ascii_digit_def)
  have s: "parse_sign (f64_display b) = (f64_neg b, dec_str ds k)"
    using h False assms by (auto simp: f64_display_def ds parse_sign_def is_ascii_digit_def)
  have "parse_float f64_format (f64_display b) = Some (f64_neg b, f64_exp b * 2 ^ 52 + f64_frac b)"
    using l by (simp add: parse_float_def s p Let_def del: distrib_left_numeral)
  with f64_word [of b] show ?thesis by (simp add: parse_f64_def)
qed

end
