(* ===== verification/Float_Literals.thy ===== *)
theory Float_Literals
  imports Pushdown Float_Read
begin

text \<open>
  The float literals of a pushed filter. PostgreSQL converts the decimal of a literal that is
  compared with a \<open>double precision\<close> column to the nearest double, as \<open>parse_f64\<close> does.
\<close>

text \<open>The number a float literal of either width compares as.\<close>

fun float_literal :: "scalar \<Rightarrow> f64 option" where
  "float_literal (SFloat64 v) = v"
| "float_literal (SFloat32 v) = map_option f32_to_f64 v"
| "float_literal _ = None"

lemma literal_sql_float: "float_literal v = Some f \<Longrightarrow> literal_sql v = finite_float_sql f"
  by (induction v rule: float_literal.induct) auto

text \<open>C12: A pushed float literal denotes exactly the float of the filter: the decimal it is written as
  reads back as the same double, to the last bit and with its sign, for every finite value, the
  subnormal ones and both zeros included; infinities and NaN are not pushed.\<close>

theorem float_literals_exact:
  assumes "float_literal v = Some f"
  shows "map_option parse_f64 (literal_sql v) = (if f64_finite f then Some (Some f) else None)"
  using literal_sql_float [OF assms] parse_f64_display [of f] by (simp add: finite_float_sql_def)

lemma float_literals_exact_witness:
  "map_option parse_f64 (literal_sql (SFloat32 (Some 0x3DCCCCCD))) = Some (Some 0x3FB99999A0000000)"
proof -
  have "float_literal (SFloat32 (Some 0x3DCCCCCD)) = Some 0x3FB99999A0000000"
    "f64_finite 0x3FB99999A0000000" by code_simp+
  with float_literals_exact [of "SFloat32 (Some 0x3DCCCCCD)" "0x3FB99999A0000000"] show ?thesis by simp
qed

end
