(* ===== verification/Socket_Addr.thy ===== *)
theory Socket_Addr
  imports Rust_Str
begin

text \<open>
  \<open>str::parse::<SocketAddr>\<close> of Rust's standard library, as far as the sources use it: whether a
  string is a socket address. Readers consume a prefix of the input and answer the rest, or
  \<open>None\<close> without consuming anything.
\<close>

definition digit_of :: "nat \<Rightarrow> char \<Rightarrow> nat option" where
  "digit_of radix c =
     (let n = code c;
          d = (if 48 \<le> n \<and> n \<le> 57 then n - 48
               else if 97 \<le> n \<and> n \<le> 122 then n - 87
               else if 65 \<le> n \<and> n \<le> 90 then n - 55 else 99)
      in if d < radix then Some d else None)"

fun digits_prefix :: "nat \<Rightarrow> string \<Rightarrow> nat list \<times> string" where
  "digits_prefix radix [] = ([], [])"
| "digits_prefix radix (c # cs) =
     (case digit_of radix c of
        None \<Rightarrow> ([], c # cs)
      | Some d \<Rightarrow> (case digits_prefix radix cs of (ds, rest) \<Rightarrow> (d # ds, rest)))"

definition number_of_digits :: "nat \<Rightarrow> nat list \<Rightarrow> int" where
  "number_of_digits radix ds = foldl (\<lambda>n d. n * int radix + int d) 0 ds"

text \<open>\<open>read_number\<close>: all digits there are; at most \<open>max_digits\<close> of them, no superfluous leading
  zero unless allowed, a value up to \<open>hi\<close>.\<close>

definition read_number :: "nat \<Rightarrow> nat option \<Rightarrow> bool \<Rightarrow> int \<Rightarrow> string \<Rightarrow> string option" where
  "read_number radix max_digits zero_prefix hi s =
     (case digits_prefix radix s of (ds, rest) \<Rightarrow>
        if ds = [] \<or> (case max_digits of Some m \<Rightarrow> length ds > m | None \<Rightarrow> False) \<or>
           \<not> zero_prefix \<and> hd ds = 0 \<and> length ds > 1 \<or> number_of_digits radix ds > hi
        then None else Some rest)"

definition read_char :: "char \<Rightarrow> string \<Rightarrow> string option" where
  "read_char c s = (case s of d # ds \<Rightarrow> if c = d then Some ds else None | [] \<Rightarrow> None)"

definition read_separator :: "char \<Rightarrow> nat \<Rightarrow> (string \<Rightarrow> string option) \<Rightarrow> string \<Rightarrow> string option" where
  "read_separator sep i inner s = (if i > 0 then Option.bind (read_char sep s) inner else inner s)"

fun read_octets :: "nat \<Rightarrow> nat \<Rightarrow> string \<Rightarrow> string option" where
  "read_octets i 0 s = Some s"
| "read_octets i (Suc n) s =
     Option.bind (read_separator CHR ''.'' i (read_number 10 (Some 3) False 255) s) (read_octets (Suc i) n)"

definition read_ipv4 :: "string \<Rightarrow> string option" where
  "read_ipv4 s = read_octets 0 4 s"

text \<open>\<open>read_groups\<close>: how many of \<open>limit\<close> groups there are, and whether the last two are an
  embedded IPv4 address.\<close>

fun read_groups :: "nat \<Rightarrow> nat \<Rightarrow> string \<Rightarrow> nat \<times> bool \<times> string" where
  "read_groups i 0 s = (i, False, s)"
| "read_groups i (Suc n) s =
     (case (if n > 0 then read_separator CHR '':'' i read_ipv4 s else None) of
        Some rest \<Rightarrow> (i + 2, True, rest)
      | None \<Rightarrow>
          (case read_separator CHR '':'' i (read_number 16 (Some 4) True 65535) s of
             Some rest \<Rightarrow> read_groups (Suc i) n rest
           | None \<Rightarrow> (i, False, s)))"

definition read_ipv6 :: "string \<Rightarrow> string option" where
  "read_ipv6 s =
     (case read_groups 0 8 s of (n, v4, rest) \<Rightarrow>
        if n = 8 then Some rest
        else if v4 then None
        else Option.bind (Option.bind (read_char CHR '':'' rest) (read_char CHR '':''))
               (\<lambda>r. Some (snd (snd (read_groups 0 (8 - (n + 1)) r)))))"

definition read_port :: "string \<Rightarrow> string option" where
  "read_port s = Option.bind (read_char CHR '':'' s) (read_number 10 None True 65535)"

definition read_scope_id :: "string \<Rightarrow> string" where
  "read_scope_id s =
     (case Option.bind (read_char CHR ''%'' s) (read_number 10 None True (2 ^ 32 - 1)) of
        Some rest \<Rightarrow> rest | None \<Rightarrow> s)"

definition read_socket_addr :: "string \<Rightarrow> string option" where
  "read_socket_addr s =
     (case Option.bind (read_ipv4 s) read_port of
        Some rest \<Rightarrow> Some rest
      | None \<Rightarrow>
          Option.bind (Option.bind (read_char CHR ''['' s) read_ipv6)
            (\<lambda>r. Option.bind (read_char CHR '']'' (read_scope_id r)) read_port))"

definition is_socket_addr :: "string \<Rightarrow> bool" where
  "is_socket_addr s \<longleftrightarrow> read_socket_addr s = Some []"

lemma is_socket_addr_examples:
  "is_socket_addr ''127.0.0.1:5432'' \<and> is_socket_addr ''[::1]:5432'' \<and>
   is_socket_addr ''[fe80::1%3]:80'' \<and> is_socket_addr ''[1:2:3:4:5:6:1.2.3.4]:80'' \<and>
   \<not> is_socket_addr ''localhost:5432'' \<and> \<not> is_socket_addr ''127.0.0.1'' \<and>
   \<not> is_socket_addr ''127.0.0.01:5432'' \<and> \<not> is_socket_addr ''127.0.0.1:65536'' \<and>
   \<not> is_socket_addr ''127.0.0.1:80 ''"
  by code_simp

end
