(* ===== verification/Config.thy ===== *)
theory Config
  imports Arrow_Types Socket_Addr Hash_Map
begin

text \<open>
  \<open>src/config.rs\<close>: the configuration file's shape, the environment overrides and the
  validation. The environment is a lookup function; \<open>load\<close> takes what it reads of the world
  (environment, files, TOML parser) as parameters. Durations are their whole seconds.
\<close>

datatype secret = Secret string

primrec expose :: "secret \<Rightarrow> string" where
  "expose (Secret s) = s"

definition secret_debug :: "secret \<Rightarrow> string" where
  "secret_debug s = ''Secret(***)''"

definition secret_display :: "secret \<Rightarrow> string" where
  "secret_display s = ''***''"

record file_source =
  fs_name :: string
  fs_uri :: "string option"
  fs_schemas :: "string list option"
  fs_tables :: "string list option"

record file_config =
  file_parquet_path :: "string option"
  file_cdc_path :: "string option"
  file_postgres_uri :: "string option"
  file_postgres_schemas :: "string list option"
  file_sources :: "file_source list option"
  file_listen_addr :: "string option"
  file_cache_max_entries :: "nat option"
  file_cache_ttl_seconds :: "nat option"
  file_cdc_poll_seconds :: "nat option"

definition default_file_config :: file_config where
  "default_file_config = \<lparr>file_parquet_path = None, file_cdc_path = None, file_postgres_uri = None,
     file_postgres_schemas = None, file_sources = None, file_listen_addr = None,
     file_cache_max_entries = None, file_cache_ttl_seconds = None, file_cdc_poll_seconds = None\<rparr>"

record postgres_source =
  src_name :: string
  src_uri :: secret
  src_schemas :: "string list"
  src_tables :: "string list option"

record config =
  parquet_path :: string
  cdc_path :: string
  postgres_sources :: "postgres_source list"
  listen_addr :: "string option"
  cache_max_entries :: nat
  cache_ttl :: nat
  cdc_poll_interval :: nat

text \<open>The constants of the module.\<close>

definition DEFAULT_CACHE_MAX_ENTRIES :: nat where [simp]: "DEFAULT_CACHE_MAX_ENTRIES = 1024"
definition DEFAULT_CACHE_TTL_SECONDS :: nat where [simp]: "DEFAULT_CACHE_TTL_SECONDS = 300"
definition DEFAULT_CDC_POLL_SECONDS :: nat where [simp]: "DEFAULT_CDC_POLL_SECONDS = 10"
definition DEFAULT_POSTGRES_SCHEMA :: string where [simp]: "DEFAULT_POSTGRES_SCHEMA = ''public''"
definition DEFAULT_SOURCE_NAME :: string where [simp]: "DEFAULT_SOURCE_NAME = ''postgres''"

definition RESERVED_SOURCE_NAMES :: "string list" where
  [simp]: "RESERVED_SOURCE_NAMES = [''datafusion'', ''information_schema'']"

type_synonym env = "string \<Rightarrow> string option"

definition postgres_source_new :: "string \<Rightarrow> string \<Rightarrow> string list \<Rightarrow> postgres_source" where
  "postgres_source_new n u schemas =
     \<lparr>src_name = n, src_uri = Secret u, src_schemas = schemas, src_tables = None\<rparr>"

definition with_tables :: "postgres_source \<Rightarrow> string list \<Rightarrow> postgres_source" where
  "with_tables s ts = s\<lparr>src_tables := Some ts\<rparr>"

subsection \<open>Small readers\<close>

text \<open>\<open>Option::or\<close>.\<close>

definition or_else :: "'a option \<Rightarrow> 'a option \<Rightarrow> 'a option" where
  "or_else a b = (case a of Some x \<Rightarrow> Some x | None \<Rightarrow> b)"

definition unwrap_or :: "'a option \<Rightarrow> 'a \<Rightarrow> 'a" where
  "unwrap_or a d = (case a of Some x \<Rightarrow> x | None \<Rightarrow> d)"

definition blank :: "string \<Rightarrow> bool" where
  "blank s \<longleftrightarrow> trim s = []"

definition split_csv :: "string \<Rightarrow> string list" where
  "split_csv raw = filter (\<lambda>s. s \<noteq> []) (map trim (split_char CHR '','' raw))"

definition env_u64 :: "env \<Rightarrow> string \<Rightarrow> config_error + nat option" where
  "env_u64 env key =
     (case env key of None \<Rightarrow> Inr None
      | Some raw \<Rightarrow> (case parse_u64 raw of
            Some n \<Rightarrow> Inr (Some n) | None \<Rightarrow> Inl (NotAnInteger key raw)))"

definition source_env_key :: "string \<Rightarrow> string \<Rightarrow> string" where
  "source_env_key name suffix = ''IGLOO_SOURCE_'' @ to_ascii_uppercase name @ ''_'' @ suffix"

definition source_env :: "env \<Rightarrow> string \<Rightarrow> string \<Rightarrow> string option" where
  "source_env env name suffix = env (source_env_key name suffix)"

definition name_char :: "uchar \<Rightarrow> bool" where
  "name_char u \<longleftrightarrow> byte_char (\<lambda>b. is_ascii_lowercase b \<or> is_ascii_digit b \<or> b = CHR ''_'') u"

definition validate_source_name :: "string \<Rightarrow> config_error + unit" where
  "validate_source_name name =
     (case chars name of
        [] \<Rightarrow> Inl (InvalidSourceName name NameEmpty)
      | c # cs \<Rightarrow>
          if \<not> byte_char is_ascii_lowercase c then Inl (InvalidSourceName name NameBadStart)
          else (case find (\<lambda>c. \<not> name_char c) cs of
                  Some bad \<Rightarrow> Inl (InvalidSourceName name (NameBadChar bad))
                | None \<Rightarrow> guard_err (name \<in> set RESERVED_SOURCE_NAMES)
                                    (ReservedSourceName name)))"

subsection \<open>Sources\<close>

definition resolve_named_source :: "file_source \<Rightarrow> env \<Rightarrow> config_error + postgres_source" where
  "resolve_named_source entry env =
     (let name = trim (fs_name entry)
      in and_then (validate_source_name name) (\<lambda>_.
         and_then (ok_or (MissingSourceUri name (source_env_key name ''URI''))
                     (or_else (source_env env name ''URI'') (fs_uri entry))) (\<lambda>uri.
         Inr \<lparr>src_name = name, src_uri = Secret uri,
              src_schemas = unwrap_or (or_else (map_option split_csv (source_env env name ''SCHEMAS''))
                                               (fs_schemas entry)) [DEFAULT_POSTGRES_SCHEMA],
              src_tables = fs_tables entry\<rparr>)))"

definition resolve_postgres_sources ::
  "file_source list option \<Rightarrow> string option \<Rightarrow> string list option \<Rightarrow> env \<Rightarrow>
   config_error + postgres_source list" where
  "resolve_postgres_sources sources postgres_uri postgres_schemas env =
     (let env_uri = or_else (env ''DATABASE_URL'') (env ''IGLOO_POSTGRES_URI'');
          env_schemas = map_option split_csv (env ''IGLOO_POSTGRES_SCHEMAS'')
      in case sources of
           None \<Rightarrow>
             and_then (ok_or (Missing ''postgres_uri'' ''IGLOO_POSTGRES_URI or DATABASE_URL'')
                         (or_else env_uri postgres_uri)) (\<lambda>uri.
             Inr [\<lparr>src_name = DEFAULT_SOURCE_NAME, src_uri = Secret uri,
                   src_schemas = unwrap_or (or_else env_schemas postgres_schemas) [DEFAULT_POSTGRES_SCHEMA],
                   src_tables = None\<rparr>])
         | Some entries \<Rightarrow>
             if postgres_uri \<noteq> None \<or> postgres_schemas \<noteq> None then Inl MixedForms
             else if entries = [] then Inl EmptySourceList
             else collect_result (\<lambda>e. resolve_named_source e env) entries)"

definition plausible_uri :: "string \<Rightarrow> bool" where
  "plausible_uri uri \<longleftrightarrow>
     starts_with ''postgres://'' uri \<or> starts_with ''postgresql://'' uri \<or> CHR ''='' \<in> set uri"

text \<open>One iteration of the loop of \<open>validate_sources\<close>; \<open>seen\<close> are the names before.\<close>

definition validate_source :: "string list \<Rightarrow> postgres_source \<Rightarrow> config_error + unit" where
  "validate_source seen s =
     and_then (validate_source_name (src_name s)) (\<lambda>_.
     and_then (guard_err (src_name s \<in> set seen) (DuplicateSource (src_name s))) (\<lambda>_.
     and_then (guard_err (\<not> plausible_uri (expose (src_uri s))) (ImplausibleUri (src_name s))) (\<lambda>_.
     and_then (guard_err (src_schemas s = []) (NoSchemas (src_name s))) (\<lambda>_.
     and_then (guard_err (list_ex blank (src_schemas s)) (EmptySchemaName (src_name s))) (\<lambda>_.
       (case src_tables s of
          Some ts \<Rightarrow> if ts = [] then Inl (EmptyAllowlist (src_name s))
                     else guard_err (list_ex blank ts) (EmptyTableName (src_name s))
        | None \<Rightarrow> Inr ()))))))"

fun validate_each :: "string list \<Rightarrow> postgres_source list \<Rightarrow> config_error + unit" where
  "validate_each seen [] = Inr ()"
| "validate_each seen (s # ss) =
     and_then (validate_source seen s) (\<lambda>_. validate_each (hs_insert (src_name s) seen) ss)"

definition validate_sources :: "config \<Rightarrow> config_error + unit" where
  "validate_sources c =
     and_then (guard_err (postgres_sources c = []) NoSources) (\<lambda>_.
       validate_each [] (postgres_sources c))"

definition validate :: "config \<Rightarrow> config_error + unit" where
  "validate c =
     and_then (guard_err (blank (parquet_path c)) EmptyParquetPath) (\<lambda>_.
     and_then (guard_err (blank (cdc_path c)) EmptyCdcPath) (\<lambda>_.
     and_then (validate_sources c) (\<lambda>_.
     and_then (case listen_addr c of
                 Some addr \<Rightarrow> guard_err (\<not> is_socket_addr addr) (BadListenAddr addr)
               | None \<Rightarrow> Inr ()) (\<lambda>_.
     and_then (guard_err (cache_max_entries c = 0) ZeroCacheEntries) (\<lambda>_.
     and_then (guard_err (cache_ttl c = 0) ZeroCacheTtl) (\<lambda>_.
     guard_err (cdc_poll_interval c = 0) ZeroCdcPoll))))))"

subsection \<open>Resolution\<close>

definition from_sources :: "file_config \<Rightarrow> env \<Rightarrow> config_error + config" where
  "from_sources f env =
     and_then (ok_or (Missing ''parquet_path'' ''IGLOO_PARQUET_PATH'')
       (or_else (env ''IGLOO_PARQUET_PATH'') (file_parquet_path f))) (\<lambda>parquet.
     and_then (ok_or (Missing ''cdc_path'' ''IGLOO_CDC_PATH'')
       (or_else (env ''IGLOO_CDC_PATH'') (file_cdc_path f))) (\<lambda>cdc.
     and_then (resolve_postgres_sources (file_sources f) (file_postgres_uri f)
       (file_postgres_schemas f) env) (\<lambda>sources.
     and_then (env_u64 env ''IGLOO_CACHE_MAX_ENTRIES'') (\<lambda>max_entries.
     and_then (env_u64 env ''IGLOO_CACHE_TTL_SECONDS'') (\<lambda>ttl_seconds.
     and_then (env_u64 env ''IGLOO_CDC_POLL_SECONDS'') (\<lambda>poll_seconds.
       let c = \<lparr>parquet_path = parquet, cdc_path = cdc, postgres_sources = sources,
                listen_addr = or_else (env ''IGLOO_LISTEN_ADDR'') (file_listen_addr f),
                cache_max_entries = unwrap_or (or_else max_entries (file_cache_max_entries f)) DEFAULT_CACHE_MAX_ENTRIES,
                cache_ttl = unwrap_or (or_else ttl_seconds (file_cache_ttl_seconds f)) DEFAULT_CACHE_TTL_SECONDS,
                cdc_poll_interval = unwrap_or (or_else poll_seconds (file_cdc_poll_seconds f)) DEFAULT_CDC_POLL_SECONDS\<rparr>
       in and_then (validate c) (\<lambda>_. Inr c)))))))"

text \<open>The head of a list; \<open>None\<close> is the panic of indexing an empty one.\<close>

definition primary_source :: "config \<Rightarrow> postgres_source option" where
  "primary_source c = (case postgres_sources c of s # ss \<Rightarrow> Some s | [] \<Rightarrow> None)"

definition require_listen_addr :: "config \<Rightarrow> config_error + string" where
  "require_listen_addr c = ok_or MissingListenAddr (listen_addr c)"

definition load_file ::
  "env \<Rightarrow> (string \<Rightarrow> bool) \<Rightarrow> (string \<Rightarrow> string + string) \<Rightarrow> (string \<Rightarrow> string + file_config) \<Rightarrow>
   igloo_error + file_config" where
  "load_file env exists read_to_string from_toml =
     (case (case env ''IGLOO_CONFIG'' of Some p \<Rightarrow> (p, True) | None \<Rightarrow> (''igloo.toml'', False)) of
        (path, explicit) \<Rightarrow>
          if \<not> exists path
          then (if explicit then Inl (EConfig (NoConfigFile path)) else Inr default_file_config)
          else and_then (map_err EIo (read_to_string path)) (\<lambda>raw.
                 map_err (\<lambda>e. EConfig (InvalidConfigFile path e)) (from_toml raw)))"

definition load ::
  "env \<Rightarrow> (string \<Rightarrow> bool) \<Rightarrow> (string \<Rightarrow> string + string) \<Rightarrow> (string \<Rightarrow> string + file_config) \<Rightarrow>
   igloo_error + config" where
  "load env exists read_to_string from_toml =
     and_then (load_file env exists read_to_string from_toml) (\<lambda>file.
       map_err EConfig (from_sources file env))"

end
