(* ===== verification/Config_Spec.thy ===== *)
theory Config_Spec
  imports Config
begin

text \<open>
  What \<open>src/config.rs\<close> promises: a configuration that loads is valid and is exactly what the
  file, the environment and the defaults say; connection strings influence nothing but
  themselves.
\<close>

subsection \<open>Source names\<close>

definition name_byte :: "char \<Rightarrow> bool" where
  "name_byte b \<longleftrightarrow> is_ascii_lowercase b \<or> is_ascii_digit b \<or> b = CHR ''_''"

definition valid_name :: "string \<Rightarrow> bool" where
  "valid_name n \<longleftrightarrow> n \<noteq> [] \<and> is_ascii_lowercase (hd n) \<and> list_all name_byte n \<and>
     n \<notin> {''datafusion'', ''information_schema''}"

lemma name_byte_ascii: "name_byte b \<Longrightarrow> is_ascii b"
  by (auto simp: name_byte_def ascii_class_defs)

lemma name_char_iff: "name_char u \<longleftrightarrow> (\<exists>b. u = [b] \<and> name_byte b)"
  by (auto simp: name_char_def byte_char_def name_byte_def split: list.splits)

lemma byte_char_iff: "byte_char P u \<longleftrightarrow> (\<exists>b. u = [b] \<and> P b)"
  by (auto simp: byte_char_def split: list.splits)

lemma name_chars: "list_all name_char us \<longleftrightarrow> (\<exists>n. us = map (\<lambda>b. [b]) n \<and> list_all name_byte n)"
proof (induction us)
  case (Cons u us)
  show ?case
  proof
    assume "list_all name_char (u # us)"
    then have "name_char u" "\<exists>n. us = map (\<lambda>b. [b]) n \<and> list_all name_byte n"
      using Cons.IH by simp_all
    then obtain b n where "u = [b]" "name_byte b" "us = map (\<lambda>b. [b]) n" "list_all name_byte n"
      unfolding name_char_iff by blast
    then show "\<exists>n. u # us = map (\<lambda>b. [b]) n \<and> list_all name_byte n"
      by (intro exI [of _ "b # n"]) simp
  qed (auto simp: name_char_iff Cons_eq_map_conv list_all_iff)
qed simp

lemma validate_source_name_iff [err_case]:
  "validate_source_name n = Inr u \<longleftrightarrow> valid_name n"
proof -
  have f: "find (\<lambda>c. \<not> name_char c) cs = None \<longleftrightarrow> list_all name_char cs" for cs
    by (auto simp: find_None_iff list_all_iff)
  have "validate_source_name n = Inr u \<longleftrightarrow>
      (\<exists>c cs. chars n = c # cs \<and> byte_char is_ascii_lowercase c \<and> list_all name_char cs) \<and>
      n \<notin> {''datafusion'', ''information_schema''}"
    by (auto simp: validate_source_name_def guard_err_def simp flip: f split: list.splits option.splits)
  also have "(\<exists>c cs. chars n = c # cs \<and> byte_char is_ascii_lowercase c \<and> list_all name_char cs) \<longleftrightarrow>
      n \<noteq> [] \<and> is_ascii_lowercase (hd n) \<and> list_all name_byte n" (is "?L \<longleftrightarrow> ?R")
  proof
    assume ?L
    then obtain b ns where "chars n = map (\<lambda>b. [b]) (b # ns)" "is_ascii_lowercase b" "list_all name_byte ns"
      by (auto simp: byte_char_iff name_chars)
    moreover from this(1) have "n = b # ns" using concat_chars [of n] by simp
    ultimately show ?R by (simp add: name_byte_def)
  next
    assume r: ?R
    then have "list_all is_ascii n" using name_byte_ascii by (auto simp: list_all_iff)
    then have "chars n = map (\<lambda>b. [b]) n" by (rule chars_ascii)
    with r show ?L by (cases n) (auto simp: byte_char_iff name_chars)
  qed
  finally show ?thesis by (simp add: valid_name_def)
qed

text \<open>Distinct valid names, or distinct settings, have distinct environment variables.\<close>

lemma upper_lower: "name_byte b \<Longrightarrow> lower_byte (upper_byte b) = b"
  by (auto simp: name_byte_def lower_byte_def upper_byte_def ascii_class_defs)

lemma lower_upper_name: "list_all name_byte n \<Longrightarrow> to_ascii_lowercase (to_ascii_uppercase n) = n"
  by (induction n) (simp_all add: to_ascii_lowercase_def to_ascii_uppercase_def upper_lower)

subsection \<open>Validity\<close>

definition valid_source :: "postgres_source \<Rightarrow> bool" where
  "valid_source s \<longleftrightarrow> valid_name (src_name s) \<and> plausible_uri (expose (src_uri s)) \<and>
     src_schemas s \<noteq> [] \<and> list_all (\<lambda>x. \<not> blank x) (src_schemas s) \<and>
     (case src_tables s of None \<Rightarrow> True | Some ts \<Rightarrow> ts \<noteq> [] \<and> list_all (\<lambda>x. \<not> blank x) ts)"

definition valid_config :: "config \<Rightarrow> bool" where
  "valid_config c \<longleftrightarrow> \<not> blank (parquet_path c) \<and> \<not> blank (cdc_path c) \<and>
     postgres_sources c \<noteq> [] \<and> distinct (map src_name (postgres_sources c)) \<and>
     list_all valid_source (postgres_sources c) \<and>
     (case listen_addr c of None \<Rightarrow> True | Some a \<Rightarrow> is_socket_addr a) \<and>
     0 < cache_max_entries c \<and> 0 < cache_ttl c \<and> 0 < cdc_poll_interval c"

lemma list_ex_not: "\<not> list_ex P xs \<longleftrightarrow> list_all (\<lambda>x. \<not> P x) xs"
  by (induction xs) auto

lemma validate_source_iff [err_case]:
  "validate_source seen s = Inr u \<longleftrightarrow> src_name s \<notin> set seen \<and> valid_source s"
  by (auto simp: validate_source_def valid_source_def err_case list_ex_not split: option.splits if_splits)

lemma validate_each_iff [err_case]:
  "validate_each seen ss = Inr u \<longleftrightarrow>
     set (map src_name ss) \<inter> set seen = {} \<and> distinct (map src_name ss) \<and> list_all valid_source ss"
  by (induction ss arbitrary: seen) (auto simp: err_case hs_insert_def)

lemma validate_iff [err_case]: "validate c = Inr u \<longleftrightarrow> valid_config c"
  by (auto simp: validate_def validate_sources_def valid_config_def err_case split: option.splits)

subsection \<open>Resolution\<close>

definition number_setting :: "env \<Rightarrow> string \<Rightarrow> nat option \<Rightarrow> nat \<Rightarrow> nat \<Rightarrow> bool" where
  "number_setting env key file d n \<longleftrightarrow>
     (case env key of Some raw \<Rightarrow> parse_u64 raw = Some n | None \<Rightarrow> n = unwrap_or file d)"

definition named_resolved :: "env \<Rightarrow> file_source \<Rightarrow> postgres_source \<Rightarrow> bool" where
  "named_resolved env e s \<longleftrightarrow> src_name s = trim (fs_name e) \<and> valid_name (src_name s) \<and>
     or_else (source_env env (src_name s) ''URI'') (fs_uri e) = Some (expose (src_uri s)) \<and>
     src_schemas s = unwrap_or (or_else (map_option split_csv (source_env env (src_name s) ''SCHEMAS''))
                                        (fs_schemas e)) [''public''] \<and>
     src_tables s = fs_tables e"

definition sources_resolved :: "file_config \<Rightarrow> env \<Rightarrow> postgres_source list \<Rightarrow> bool" where
  "sources_resolved f env ss \<longleftrightarrow>
     (case file_sources f of
        None \<Rightarrow> (\<exists>uri. or_else (or_else (env ''DATABASE_URL'') (env ''IGLOO_POSTGRES_URI''))
                    (file_postgres_uri f) = Some uri \<and>
                 ss = [postgres_source_new ''postgres'' uri
                        (unwrap_or (or_else (map_option split_csv (env ''IGLOO_POSTGRES_SCHEMAS''))
                          (file_postgres_schemas f)) [''public''])])
      | Some es \<Rightarrow> file_postgres_uri f = None \<and> file_postgres_schemas f = None \<and> es \<noteq> [] \<and>
                   list_all2 (named_resolved env) es ss)"

definition resolved :: "file_config \<Rightarrow> env \<Rightarrow> config \<Rightarrow> bool" where
  "resolved f env c \<longleftrightarrow>
     or_else (env ''IGLOO_PARQUET_PATH'') (file_parquet_path f) = Some (parquet_path c) \<and>
     or_else (env ''IGLOO_CDC_PATH'') (file_cdc_path f) = Some (cdc_path c) \<and>
     sources_resolved f env (postgres_sources c) \<and>
     listen_addr c = or_else (env ''IGLOO_LISTEN_ADDR'') (file_listen_addr f) \<and>
     number_setting env ''IGLOO_CACHE_MAX_ENTRIES'' (file_cache_max_entries f) 1024 (cache_max_entries c) \<and>
     number_setting env ''IGLOO_CACHE_TTL_SECONDS'' (file_cache_ttl_seconds f) 300 (cache_ttl c) \<and>
     number_setting env ''IGLOO_CDC_POLL_SECONDS'' (file_cdc_poll_seconds f) 10 (cdc_poll_interval c)"

lemma or_else_simps [simp]: "or_else None b = b" "or_else (Some x) b = Some x"
  by (simp_all add: or_else_def)

lemma unwrap_or_simps [simp]: "unwrap_or None d = d" "unwrap_or (Some x) d = x"
  by (simp_all add: unwrap_or_def)

lemma number_setting_iff:
  "(\<exists>x. env_u64 env key = Inr x \<and> n = unwrap_or (or_else x file) d) \<longleftrightarrow> number_setting env key file d n"
  by (auto simp: env_u64_def number_setting_def split: option.splits)

lemma resolve_named_source_iff [err_case]:
  "resolve_named_source e env = Inr s \<longleftrightarrow> named_resolved env e s"
proof -
  obtain n u ss ts where s: "s = \<lparr>src_name = n, src_uri = Secret u, src_schemas = ss, src_tables = ts\<rparr>"
    by (cases s, rename_tac u ss ts, case_tac u) auto
  show ?thesis
    unfolding s by (auto simp: resolve_named_source_def named_resolved_def Let_def err_case)
qed

lemma collect_named:
  "collect_result (\<lambda>e. resolve_named_source e env) es = Inr ss \<longleftrightarrow> list_all2 (named_resolved env) es ss"
  by (simp add: collect_result_Inr resolve_named_source_iff)

lemma resolve_postgres_sources_iff [err_case]:
  "resolve_postgres_sources (file_sources f) (file_postgres_uri f) (file_postgres_schemas f) env = Inr ss \<longleftrightarrow>
   sources_resolved f env ss"
proof (cases "file_sources f")
  case None
  then show ?thesis
    by (auto simp: resolve_postgres_sources_def sources_resolved_def Let_def and_then_Inr ok_or_Inr
        postgres_source_new_def)
next
  case (Some es)
  then show ?thesis
    by (simp add: resolve_postgres_sources_def sources_resolved_def Let_def collect_named)
qed

lemma from_sources_iff:
  "from_sources f env = Inr c \<longleftrightarrow> resolved f env c \<and> valid_config c"
proof -
  have "from_sources f env = Inr c \<longleftrightarrow>
    (\<exists>p d ss m t q. or_else (env ''IGLOO_PARQUET_PATH'') (file_parquet_path f) = Some p \<and>
      or_else (env ''IGLOO_CDC_PATH'') (file_cdc_path f) = Some d \<and> sources_resolved f env ss \<and>
      env_u64 env ''IGLOO_CACHE_MAX_ENTRIES'' = Inr m \<and> env_u64 env ''IGLOO_CACHE_TTL_SECONDS'' = Inr t \<and>
      env_u64 env ''IGLOO_CDC_POLL_SECONDS'' = Inr q \<and>
      c = \<lparr>parquet_path = p, cdc_path = d, postgres_sources = ss,
           listen_addr = or_else (env ''IGLOO_LISTEN_ADDR'') (file_listen_addr f),
           cache_max_entries = unwrap_or (or_else m (file_cache_max_entries f)) DEFAULT_CACHE_MAX_ENTRIES,
           cache_ttl = unwrap_or (or_else t (file_cache_ttl_seconds f)) DEFAULT_CACHE_TTL_SECONDS,
           cdc_poll_interval = unwrap_or (or_else q (file_cdc_poll_seconds f)) DEFAULT_CDC_POLL_SECONDS\<rparr> \<and> valid_config c)"
    unfolding from_sources_def Let_def and_then_Inr ok_or_Inr resolve_postgres_sources_iff validate_iff
    by blast
  also have "\<dots> \<longleftrightarrow> resolved f env c \<and> valid_config c"
    unfolding resolved_def number_setting_iff [symmetric] by (cases c) auto
  finally show ?thesis .
qed

subsection \<open>Connection strings pass through\<close>

text \<open>Replacing every connection string, wherever it comes from, by its image under \<open>g\<close>.\<close>

definition uri_key :: "string \<Rightarrow> bool" where
  "uri_key k \<longleftrightarrow> k = ''DATABASE_URL'' \<or> k = ''IGLOO_POSTGRES_URI'' \<or>
     (\<exists>name. k = source_env_key name ''URI'')"

definition map_env :: "(string \<Rightarrow> string) \<Rightarrow> env \<Rightarrow> env" where
  "map_env g env = (\<lambda>k. if uri_key k then map_option g (env k) else env k)"

definition map_entry :: "(string \<Rightarrow> string) \<Rightarrow> file_source \<Rightarrow> file_source" where
  "map_entry g e = e\<lparr>fs_uri := map_option g (fs_uri e)\<rparr>"

definition map_file :: "(string \<Rightarrow> string) \<Rightarrow> file_config \<Rightarrow> file_config" where
  "map_file g f = f\<lparr>file_postgres_uri := map_option g (file_postgres_uri f),
     file_sources := map_option (map (map_entry g)) (file_sources f)\<rparr>"

definition map_source :: "(string \<Rightarrow> string) \<Rightarrow> postgres_source \<Rightarrow> postgres_source" where
  "map_source g s = s\<lparr>src_uri := Secret (g (expose (src_uri s)))\<rparr>"

definition map_config :: "(string \<Rightarrow> string) \<Rightarrow> config \<Rightarrow> config" where
  "map_config g c = c\<lparr>postgres_sources := map (map_source g) (postgres_sources c)\<rparr>"

definition map_ok :: "('a \<Rightarrow> 'b) \<Rightarrow> 'e + 'a \<Rightarrow> 'e + 'b" where
  "map_ok h r = (case r of Inl e \<Rightarrow> Inl e | Inr x \<Rightarrow> Inr (h x))"

lemma map_ok_simps [simp]: "map_ok h (Inl e) = Inl e" "map_ok h (Inr x) = Inr (h x)"
  by (simp_all add: map_ok_def)

lemma map_ok_and_then: "map_ok h (and_then r f) = and_then r (\<lambda>x. map_ok h (f x))"
  by (cases r) simp_all

lemma and_then_map_ok: "and_then (map_ok h r) f = and_then r (\<lambda>x. f (h x))"
  by (cases r) simp_all

lemma ok_or_map: "ok_or e (map_option h r) = map_ok h (ok_or e r)"
  by (cases r) simp_all

lemma or_else_map: "or_else (map_option h a) (map_option h b) = map_option h (or_else a b)"
  by (cases a) simp_all

lemma source_env_key_split: "source_env_key n x = ''IGLOO_SOURCE_'' @ to_ascii_uppercase n @ ''_'' @ x"
  by (simp add: source_env_key_def)

lemma schemas_not_uri: "\<not> uri_key (source_env_key n ''SCHEMAS'')"
proof -
  have "last (source_env_key n ''SCHEMAS'') = CHR ''S''" "last (source_env_key m ''URI'') = CHR ''I''" for m
    by (simp_all add: source_env_key_def)
  then show ?thesis unfolding uri_key_def by (auto simp: source_env_key_def)
qed

lemma plain_not_uri:
  "\<not> uri_key ''IGLOO_PARQUET_PATH''" "\<not> uri_key ''IGLOO_CDC_PATH''" "\<not> uri_key ''IGLOO_LISTEN_ADDR''"
  "\<not> uri_key ''IGLOO_CACHE_MAX_ENTRIES''" "\<not> uri_key ''IGLOO_CACHE_TTL_SECONDS''"
  "\<not> uri_key ''IGLOO_CDC_POLL_SECONDS''" "\<not> uri_key ''IGLOO_POSTGRES_SCHEMAS''"
  by (simp_all add: uri_key_def source_env_key_def)

lemma map_env_plain:
  "\<not> uri_key k \<Longrightarrow> map_env g env k = env k"
  "\<not> uri_key k \<Longrightarrow> env_u64 (map_env g env) k = env_u64 env k"
  by (simp_all add: map_env_def env_u64_def)

lemma map_env_uri:
  "map_env g env ''DATABASE_URL'' = map_option g (env ''DATABASE_URL'')"
  "map_env g env ''IGLOO_POSTGRES_URI'' = map_option g (env ''IGLOO_POSTGRES_URI'')"
  "source_env (map_env g env) n ''URI'' = map_option g (source_env env n ''URI'')"
  "source_env (map_env g env) n ''SCHEMAS'' = source_env env n ''SCHEMAS''"
  using schemas_not_uri [of n] by (auto simp: map_env_def uri_key_def source_env_def)

lemma resolve_named_map:
  "resolve_named_source (map_entry g e) (map_env g env) = map_ok (map_source g) (resolve_named_source e env)"
  by (simp add: resolve_named_source_def Let_def map_entry_def map_env_uri or_else_map ok_or_map
      map_ok_and_then and_then_map_ok map_source_def)

lemma collect_map:
  "(\<And>x. F (h x) = map_ok k (G x)) \<Longrightarrow> collect_result F (map h xs) = map_ok (map k) (collect_result G xs)"
  by (induction xs) (simp_all add: map_ok_and_then and_then_map_ok)

lemma resolve_sources_map:
  "resolve_postgres_sources (map_option (map (map_entry g)) sources) (map_option g u) schemas (map_env g env) =
   map_ok (map (map_source g)) (resolve_postgres_sources sources u schemas env)"
proof (cases sources)
  case None
  then show ?thesis
    by (simp add: resolve_postgres_sources_def Let_def map_env_uri map_env_plain plain_not_uri or_else_map
        ok_or_map map_ok_and_then and_then_map_ok map_source_def)
next
  case (Some es)
  then show ?thesis
    using collect_map [of "\<lambda>e. resolve_named_source e (map_env g env)" "map_entry g" "map_source g"
        "\<lambda>e. resolve_named_source e env" es, OF resolve_named_map]
    by (simp add: resolve_postgres_sources_def Let_def)
qed

lemma validate_each_map:
  assumes "\<And>u. plausible_uri (g u) = plausible_uri u"
  shows "validate_each seen (map (map_source g) ss) = validate_each seen ss"
proof -
  have "validate_source seen (map_source g s) = validate_source seen s" for seen s
    by (cases "src_tables s") (simp_all add: validate_source_def map_source_def assms)
  then show ?thesis by (induction ss arbitrary: seen) (simp_all add: map_source_def)
qed

lemma validate_map:
  assumes "\<And>u. plausible_uri (g u) = plausible_uri u"
  shows "validate (map_config g c) = validate c"
  by (simp add: validate_def validate_sources_def map_config_def validate_each_map [OF assms])

subsection \<open>Properties\<close>

text \<open>A file and an environment for the witnesses: two sources, the first with its connection
  string in the environment only.\<close>

definition sample_file :: file_config where
  "sample_file = default_file_config\<lparr>file_parquet_path := Some ''data'', file_cdc_path := Some ''cdc'',
     file_cache_ttl_seconds := Some 60,
     file_sources := Some
       [\<lparr>fs_name = '' orders '', fs_uri = None, fs_schemas = None, fs_tables = None\<rparr>,
        \<lparr>fs_name = ''crm'', fs_uri = Some ''host=b'', fs_schemas = Some [''x''], fs_tables = Some [''t'']\<rparr>]\<rparr>"

definition sample_env :: env where
  "sample_env = [''IGLOO_SOURCE_ORDERS_URI'' \<mapsto> ''postgres://a'', ''IGLOO_SOURCE_CRM_SCHEMAS'' \<mapsto> ''p, q'']"

definition sample_config :: config where
  "sample_config = \<lparr>parquet_path = ''data'', cdc_path = ''cdc'',
     postgres_sources =
       [\<lparr>src_name = ''orders'', src_uri = Secret ''postgres://a'', src_schemas = [''public''], src_tables = None\<rparr>,
        \<lparr>src_name = ''crm'', src_uri = Secret ''host=b'', src_schemas = [''p'', ''q''], src_tables = Some [''t'']\<rparr>],
     listen_addr = None, cache_max_entries = 1024, cache_ttl = 60, cdc_poll_interval = 10\<rparr>"

lemma sample_loads: "from_sources sample_file sample_env = Inr sample_config"
  by code_simp

text \<open>C21: configuration loads exactly when every setting resolves and the result is valid, and then
  it is the resolved one: environment before file before default, the single-source keys or the
  source list but never both, and a valid configuration has non-blank paths, at least one source,
  distinct usable source names, plausible connection strings, non-empty schema and table lists, a
  well-formed listen address and positive limits.\<close>

theorem config_loads_iff:
  "from_sources f env = Inr c \<longleftrightarrow> resolved f env c \<and> valid_config c"
  by (rule from_sources_iff)

lemma config_loads_iff_witness: "resolved sample_file sample_env sample_config \<and> valid_config sample_config"
  using config_loads_iff sample_loads by blast

text \<open>C22: connection strings influence nothing but themselves. Replacing all of them, in the file and
  in the environment, by a function that keeps their plausible look gives the same error with the
  same contents, or the same configuration with the connection strings replaced: no error message
  can carry one.\<close>

theorem secrets_pass_through:
  assumes "\<And>u. plausible_uri (g u) = plausible_uri u"
  shows "from_sources (map_file g f) (map_env g env) =
    (case from_sources f env of Inl e \<Rightarrow> Inl e | Inr c \<Rightarrow> Inr (map_config g c))"
proof -
  have "from_sources (map_file g f) (map_env g env) = map_ok (map_config g) (from_sources f env)"
    by (simp add: from_sources_def map_file_def map_env_plain plain_not_uri resolve_sources_map
        map_ok_and_then and_then_map_ok Let_def validate_map [OF assms, unfolded map_config_def] map_config_def
        validate_def validate_sources_def validate_each_map [OF assms])
  then show ?thesis by (simp add: map_ok_def)
qed

definition hide :: "string \<Rightarrow> string" where
  "hide u = (if plausible_uri u then ''a=b'' else [])"

lemma secrets_pass_through_witness:
  "\<exists>c. from_sources (map_file hide sample_file) (map_env hide sample_env) = Inr c \<and>
     map (expose \<circ> src_uri) (postgres_sources c) = [''a=b'', ''a=b''] \<and> cache_ttl c = 60"
proof -
  have "plausible_uri (hide u) = plausible_uri u" for u
    by (simp add: hide_def plausible_uri_def starts_with_def)
  from secrets_pass_through [OF this, of sample_file sample_env] show ?thesis
    by (simp add: sample_loads)
      (simp add: sample_config_def map_config_def map_source_def hide_def plausible_uri_def starts_with_def)
qed

text \<open>The environment variables of two sources never coincide: for valid names, equal variable
  names mean the same source and the same setting.\<close>

lemma source_env_keys_distinct:
  assumes "valid_name m" and "valid_name n" and "x \<in> {''URI'', ''SCHEMAS''}" and "y \<in> {''URI'', ''SCHEMAS''}"
    and "source_env_key m x = source_env_key n y"
  shows "m = n \<and> x = y"
proof -
  have "last (source_env_key m x) = last x" "last (source_env_key n y) = last y"
    using assms(3,4) by (auto simp: source_env_key_def)
  then have xy: "x = y" using assms(3-5) by auto
  with assms(5) have "to_ascii_uppercase m = to_ascii_uppercase n" by (simp add: source_env_key_def)
  then have "to_ascii_lowercase (to_ascii_uppercase m) = to_ascii_lowercase (to_ascii_uppercase n)" by simp
  with xy assms(1,2) show ?thesis by (simp add: valid_name_def lower_upper_name)
qed

lemma source_env_keys_example: "source_env_key ''a_uri'' ''URI'' \<noteq> source_env_key ''a'' ''SCHEMAS''"
proof -
  have "valid_name ''a_uri'' \<and> valid_name ''a''" by code_simp
  then show ?thesis using source_env_keys_distinct [of "''a_uri''" "''a''" "''URI''" "''SCHEMAS''"] by auto
qed

end
