(* ===== verification/Pushdown_Spec.thy ===== *)
theory Pushdown_Spec
  imports Pushdown
begin

text \<open>
  What a pushed filter means. \<open>pg_pred\<close> is the condition PostgreSQL reads, \<open>read_pred\<close>
  reads it from SQL text, \<open>filter_pred\<close> says which condition stands for which DataFusion
  expression, and \<open>df_eval\<close> and \<open>pg_eval\<close> give both a three-valued meaning. The comparison
  of values belongs to DataFusion and to PostgreSQL: it is a parameter on either side, and
  \<open>agree\<close> is the assumption that they compare a column with a literal alike, string orderings
  excepted (they depend on the collation).
\<close>

datatype pg_lit = PgBool bool | PgNum string | PgText string

datatype pg_pred =
    PgCmp string operator pg_lit
  | PgIsNull string
  | PgIsNotNull string
  | PgIn string bool "pg_lit list"
  | PgAnd pg_pred pg_pred

subsection \<open>Tokens of a condition, and reading them back\<close>

fun lit_toks :: "pg_lit \<Rightarrow> token list" where
  "lit_toks (PgBool b) = [TWord (if b then ''TRUE'' else ''FALSE'')]"
| "lit_toks (PgNum s) = number_toks s"
| "lit_toks (PgText s) = [TString s]"

definition op_text :: "operator \<Rightarrow> string" where
  "op_text op = the (comparison_op_sql op)"

fun pred_toks :: "pg_pred \<Rightarrow> token list" where
  "pred_toks (PgCmp c op v) = [TIdent c, TOp (op_text op)] @ lit_toks v"
| "pred_toks (PgIsNull c) = [TIdent c, TWord ''IS'', TWord ''NULL'']"
| "pred_toks (PgIsNotNull c) = [TIdent c, TWord ''IS'', TWord ''NOT'', TWord ''NULL'']"
| "pred_toks (PgIn c neg vs) =
     TIdent c # (if neg then [TWord ''NOT'', TWord ''IN''] else [TWord ''IN'']) @
     [TPunct CHR ''(''] @ sep_toks [TPunct CHR '',''] (map lit_toks vs) @ [TPunct CHR '')'']"
| "pred_toks (PgAnd p q) =
     [TPunct CHR ''(''] @ pred_toks p @ [TWord ''AND''] @ pred_toks q @ [TPunct CHR '')'']"

fun parse_lit :: "token list \<Rightarrow> (pg_lit \<times> token list) option" where
  "parse_lit (TWord w # ts) =
     (if w = ''TRUE'' then Some (PgBool True, ts)
      else if w = ''FALSE'' then Some (PgBool False, ts) else None)"
| "parse_lit (TNumber n # ts) = Some (PgNum n, ts)"
| "parse_lit (TOp p # TNumber n # ts) =
     (if p = ''-'' then Some (PgNum (CHR ''-'' # n), ts) else None)"
| "parse_lit (TString s # ts) = Some (PgText s, ts)"
| "parse_lit _ = None"

fun parse_lits :: "nat \<Rightarrow> token list \<Rightarrow> (pg_lit list \<times> token list) option" where
  "parse_lits 0 ts = None"
| "parse_lits (Suc n) ts =
     (case parse_lit ts of None \<Rightarrow> None
      | Some (v, TPunct c # ts') \<Rightarrow>
          if c = CHR '')'' then Some ([v], ts')
          else if c = CHR '','' then map_option (\<lambda>(vs, r). (v # vs, r)) (parse_lits n ts')
          else None
      | Some _ \<Rightarrow> None)"

definition op_of :: "string \<Rightarrow> operator option" where
  "op_of s = (if s = ''='' then Some Eq else if s = ''<>'' then Some NotEq
     else if s = ''<'' then Some Lt else if s = ''<='' then Some LtEq
     else if s = ''>'' then Some Gt else if s = ''>='' then Some GtEq else None)"

definition after_ident :: "string \<Rightarrow> token list \<Rightarrow> (pg_pred \<times> token list) option" where
  "after_ident c ts =
     (case ts of
        TOp s # r \<Rightarrow>
          (case op_of s of None \<Rightarrow> None
           | Some op \<Rightarrow> map_option (\<lambda>(v, r'). (PgCmp c op v, r')) (parse_lit r))
      | TWord w # r \<Rightarrow>
          if w = ''IS'' then
            (case r of
               TWord a # r' \<Rightarrow>
                 if a = ''NULL'' then Some (PgIsNull c, r')
                 else if a = ''NOT'' then
                   (case r' of TWord b # r'' \<Rightarrow> if b = ''NULL'' then Some (PgIsNotNull c, r'') else None
                    | _ \<Rightarrow> None)
                 else None
             | _ \<Rightarrow> None)
          else if w = ''IN'' then
            (case r of TPunct p # r' \<Rightarrow>
               if p = CHR ''('' then map_option (\<lambda>(vs, r'). (PgIn c False vs, r')) (parse_lits (length r') r')
               else None
             | _ \<Rightarrow> None)
          else if w = ''NOT'' then
            (case r of TWord a # TPunct p # r' \<Rightarrow>
               if a = ''IN'' \<and> p = CHR ''(''
               then map_option (\<lambda>(vs, r'). (PgIn c True vs, r')) (parse_lits (length r') r')
               else None
             | _ \<Rightarrow> None)
          else None
      | _ \<Rightarrow> None)"

fun parse_pred :: "nat \<Rightarrow> token list \<Rightarrow> (pg_pred \<times> token list) option" where
  "parse_pred (Suc n) (TIdent c # ts) = after_ident c ts"
| "parse_pred (Suc n) (TPunct p # ts) =
     (if p \<noteq> CHR ''('' then None
      else case parse_pred n ts of
        Some (a, TWord w # ts') \<Rightarrow>
          if w \<noteq> ''AND'' then None
          else (case parse_pred n ts' of
                  Some (b, TPunct q # ts'') \<Rightarrow>
                    if q = CHR '')'' then Some (PgAnd a b, ts'') else None
                | _ \<Rightarrow> None)
      | _ \<Rightarrow> None)"
| "parse_pred _ _ = None"

text \<open>A whole condition: the tokens of the text, all of them. The nesting cannot exceed the
  number of tokens.\<close>

definition read_pred :: "string \<Rightarrow> pg_pred option" where
  "read_pred sql =
     (case lex sql of None \<Rightarrow> None
      | Some ts \<Rightarrow> (case parse_pred (length ts) ts of Some (p, []) \<Rightarrow> Some p | _ \<Rightarrow> None))"

fun lit_ok :: "pg_lit \<Rightarrow> bool" where
  "lit_ok (PgNum s) \<longleftrightarrow> is_number s"
| "lit_ok _ \<longleftrightarrow> True"

fun pred_ok :: "pg_pred \<Rightarrow> bool" where
  "pred_ok (PgCmp c op v) \<longleftrightarrow> comparison_op_sql op \<noteq> None \<and> lit_ok v"
| "pred_ok (PgIn c neg vs) \<longleftrightarrow> vs \<noteq> [] \<and> list_all lit_ok vs"
| "pred_ok (PgAnd p q) \<longleftrightarrow> pred_ok p \<and> pred_ok q"
| "pred_ok _ \<longleftrightarrow> True"

lemma parse_lit_toks: "lit_ok v \<Longrightarrow> parse_lit (lit_toks v @ rest) = Some (v, rest)"
proof (cases v)
  case (PgNum s)
  assume "lit_ok v"
  then show ?thesis
    using decimal_head [of s] PgNum
    by (cases s) (auto simp: number_toks_def is_number_def)
qed simp_all

lemma number_toks_length: "is_number s \<Longrightarrow> Suc 0 \<le> length (number_toks s)"
  using decimal_head [of s] by (auto simp: is_number_def number_toks_def)

lemma lit_toks_length: "lit_ok v \<Longrightarrow> Suc 0 \<le> length (lit_toks v)"
  by (cases v) (auto simp: number_toks_length)

lemma parse_lits_toks:
  assumes "list_all lit_ok vs" and "vs \<noteq> []" and "length vs \<le> n"
  shows "parse_lits n (sep_toks [TPunct CHR '',''] (map lit_toks vs) @ TPunct CHR '')'' # rest) =
    Some (vs, rest)"
  using assms
proof (induction vs arbitrary: n rule: induct_list012)
  case (2 v)
  then obtain k where "n = Suc k" by (cases n) auto
  with 2 show ?case by (simp add: parse_lit_toks)
next
  case (3 v w vs)
  then obtain k where "n = Suc k" by (cases n) auto
  with 3 show ?case by (simp add: parse_lit_toks)
qed simp

lemma sep_toks_length:
  "list_all lit_ok vs \<Longrightarrow> length vs \<le> length (sep_toks [TPunct CHR '',''] (map lit_toks vs))"
proof (induction vs rule: induct_list012)
  case (2 v)
  then show ?case using lit_toks_length [of v] by simp
next
  case (3 v w vs)
  then show ?case using lit_toks_length [of v] by simp
qed simp

lemma op_of_text: "comparison_op_sql op \<noteq> None \<Longrightarrow> op_of (op_text op) = Some op"
  by (cases op) (simp_all add: op_text_def op_of_def)

fun depth :: "pg_pred \<Rightarrow> nat" where
  "depth (PgAnd p q) = Suc (max (depth p) (depth q))"
| "depth _ = 1"

lemma depth_le: "depth p \<le> length (pred_toks p)"
  by (induction p) auto

lemma parse_pred_toks:
  "pred_ok p \<Longrightarrow> depth p \<le> n \<Longrightarrow> parse_pred n (pred_toks p @ rest) = Some (p, rest)"
proof (induction p arbitrary: n rest)
  case (PgCmp c op v)
  then show ?case by (cases n) (auto simp: after_ident_def op_of_text parse_lit_toks)
next
  case (PgIn c neg vs)
  then have "length vs \<le> length (sep_toks [TPunct CHR '',''] (map lit_toks vs))"
    by (simp add: sep_toks_length)
  with PgIn show ?case
    by (cases n) (auto simp: after_ident_def parse_lits_toks simp del: parse_lits.simps)
next
  case (PgAnd p q)
  then show ?case by (cases n) auto
next
  case (PgIsNull c)
  then show ?case by (cases n) (auto simp: after_ident_def)
next
  case (PgIsNotNull c)
  then show ?case by (cases n) (auto simp: after_ident_def)
qed

lemma read_pred_toks: "lex sql = Some (pred_toks p) \<Longrightarrow> pred_ok p \<Longrightarrow> read_pred sql = Some p"
  using parse_pred_toks [of p "length (pred_toks p)" "[]"] depth_le [of p]
  by (simp add: read_pred_def)

subsection \<open>Which condition stands for an expression\<close>

fun lit_of :: "scalar \<Rightarrow> pg_lit" where
  "lit_of (SBoolean (Some b)) = PgBool b"
| "lit_of (SUtf8 (Some s)) = PgText s"
| "lit_of (SLargeUtf8 (Some s)) = PgText s"
| "lit_of (SUtf8View (Some s)) = PgText s"
| "lit_of v = PgNum (the (literal_sql v))"

definition pushable :: "operator \<Rightarrow> scalar \<Rightarrow> bool" where
  "pushable op v \<longleftrightarrow> literal_sql v \<noteq> None \<and> \<not> (is_ordering op \<and> is_string_literal v)"

definition has_column :: "schema \<Rightarrow> string \<Rightarrow> bool" where
  "has_column sch c \<longleftrightarrow> c \<in> f_name ` set sch"

inductive filter_pred :: "schema \<Rightarrow> expr \<Rightarrow> pg_pred \<Rightarrow> bool" for sch :: schema where
  cmp: "comparison_op_sql op \<noteq> None \<Longrightarrow> pushable op v \<Longrightarrow> has_column sch (c_name c) \<Longrightarrow>
    filter_pred sch (BinaryExpr (Column c) op (Literal v)) (PgCmp (c_name c) op (lit_of v))"
| flipped: "comparison_op_sql op \<noteq> None \<Longrightarrow> pushable op v \<Longrightarrow> has_column sch (c_name c) \<Longrightarrow>
    filter_pred sch (BinaryExpr (Literal v) op (Column c)) (PgCmp (c_name c) (flip_operator op) (lit_of v))"
| is_null: "has_column sch (c_name c) \<Longrightarrow> filter_pred sch (IsNull (Column c)) (PgIsNull (c_name c))"
| is_not_null: "has_column sch (c_name c) \<Longrightarrow>
    filter_pred sch (IsNotNull (Column c)) (PgIsNotNull (c_name c))"
| in_list: "has_column sch (c_name c) \<Longrightarrow> vs \<noteq> [] \<Longrightarrow> list_all (pushable Eq) vs \<Longrightarrow>
    filter_pred sch (InList (Column c) (map Literal vs) neg) (PgIn (c_name c) neg (map lit_of vs))"
| conj: "filter_pred sch e p \<Longrightarrow> filter_pred sch f q \<Longrightarrow>
    filter_pred sch (BinaryExpr e And f) (PgAnd p q)"

inductive_cases filter_predE: "filter_pred sch e p"

lemma literal_sql_lit: "literal_sql v = Some t \<Longrightarrow> lit_ok (lit_of v)"
  by (cases v rule: literal_sql.cases)
    (auto simp: finite_float_sql_def f64_display_number split: if_splits)

lemma word_chars [simp]:
  "is_ascii_alphabetic c \<Longrightarrow> word_start c" "is_ascii_alphabetic c \<Longrightarrow> word_char c"
  by (simp_all add: word_start_def word_char_def)

lemma lex_letters:
  assumes "w \<noteq> []" and "list_all is_ascii_alphabetic w" and "delimited rest"
  shows "lex (w @ rest) = prepend [TWord w] (lex rest)"
proof -
  obtain c u where w: "w = c # u" using assms(1) by (cases w) auto
  with assms(2) have "list_all word_char u" "word_start c" by (auto simp: list_all_iff)
  then show ?thesis using lex_word [OF assms(3)] w by simp
qed

lemma number_tok: "is_number s \<Longrightarrow> delimited rest \<Longrightarrow> lex (s @ rest) = prepend (number_toks s) (lex rest)"
  by (rule lex_number)

text \<open>The printer of literals: every literal the translation accepts is read back as the tokens
  of its value.\<close>

interpretation lit: sql_printer "\<lambda>v. the (literal_sql v)" "\<lambda>v. lit_toks (lit_of v)"
  "\<lambda>v. literal_sql v \<noteq> None"
proof unfold_locales
  fix v rest
  assume "literal_sql v \<noteq> None" and d: "delimited rest"
  then obtain t where t: "literal_sql v = Some t" by auto
  have b: "lex (''TRUE'' @ rest) = prepend [TWord ''TRUE''] (lex rest)"
    "lex (''FALSE'' @ rest) = prepend [TWord ''FALSE''] (lex rest)"
    by (rule lex_letters [OF _ _ d];
        simp add: is_ascii_alphabetic_def is_ascii_uppercase_def)+
  have n: "lex (show_int i @ rest) = prepend (number_toks (show_int i)) (lex rest)"
    "lex (show_nat k @ rest) = prepend (number_toks (show_nat k)) (lex rest)"
    "f64_finite f \<Longrightarrow> lex (f64_display f @ rest) = prepend (number_toks (f64_display f)) (lex rest)"
    for i k f
    using d by (auto intro!: number_tok simp: f64_display_number)
  have s: "escape_string_literal s = Some t \<Longrightarrow> lex (t @ rest) = prepend [TString s] (lex rest)" for s
    using d by (simp add: lex_escape_string)
  show "lex (the (literal_sql v) @ rest) = prepend (lit_toks (lit_of v)) (lex rest)"
    using t b n s
    by (cases v rule: literal_sql.cases) (auto simp: finite_float_sql_def split: if_splits)
qed

subsection \<open>The translation produces the text of such a condition\<close>

lemma as_column_Some [simp]: "as_column e = Some c \<longleftrightarrow> e = Column c"
  by (cases e) (auto simp: as_column_def)

lemma as_literal_Some [simp]: "as_literal e = Some v \<longleftrightarrow> e = Literal v"
  by (cases e) (auto simp: as_literal_def)

lemma column_sql_Some [simp]:
  "column_sql c sch = Some t \<longleftrightarrow> has_column sch (c_name c) \<and> t = quote_ident (c_name c)"
  by (auto simp: column_sql_def has_column_def list_ex_iff image_iff dest: sym)

lemma comparison_flip [simp]: "comparison_op_sql (flip_operator op) = None \<longleftrightarrow> comparison_op_sql op = None"
  by (cases op) simp_all

text \<open>The forms a successful comparison has.\<close>

lemma translate_comparison_Some:
  assumes "translate_comparison l op r sch = Some sql"
  obtains c :: column and v t op' where "filter_pred sch (BinaryExpr l op r) (PgCmp (c_name c) op' (lit_of v))"
    "literal_sql v = Some t" "comparison_op_sql op' \<noteq> None"
    "sql = quote_ident (c_name c) @ '' '' @ op_text op' @ '' '' @ t"
proof -
  consider c v where "l = Column c" "r = Literal v"
    | c v where "l = Literal v" "r = Column c"
    using assms
    by (auto simp: translate_comparison_def split: option.splits)
  then show thesis
  proof cases
    case (1 c v)
    with assms obtain o_sql t where t: "comparison_op_sql op = Some o_sql" "literal_sql v = Some t"
        "\<not> (is_ordering op \<and> is_string_literal v)" "has_column sch (c_name c)"
        "sql = quote_ident (c_name c) @ '' '' @ o_sql @ '' '' @ t"
      by (auto simp: translate_comparison_def as_column_def as_literal_def
          split: option.splits if_splits)
    then have "filter_pred sch (BinaryExpr l op r) (PgCmp (c_name c) op (lit_of v))"
      using 1 by (auto simp: pushable_def intro!: filter_pred.cmp)
    moreover have "o_sql = op_text op" "comparison_op_sql op \<noteq> None"
      using t(1) by (simp_all add: op_text_def)
    ultimately show thesis using that [of c op v t] t by simp
  next
    case (2 c v)
    with assms obtain o_sql t where t: "comparison_op_sql (flip_operator op) = Some o_sql"
        "comparison_op_sql op \<noteq> None" "literal_sql v = Some t"
        "\<not> (is_ordering op \<and> is_string_literal v)" "has_column sch (c_name c)"
        "sql = quote_ident (c_name c) @ '' '' @ o_sql @ '' '' @ t"
      by (auto simp: translate_comparison_def as_column_def as_literal_def
          split: option.splits if_splits)
    then have "filter_pred sch (BinaryExpr l op r) (PgCmp (c_name c) (flip_operator op) (lit_of v))"
      using 2 by (auto simp: pushable_def intro!: filter_pred.flipped)
    moreover have "o_sql = op_text (flip_operator op)" using t(1) by (simp add: op_text_def)
    moreover have "comparison_op_sql (flip_operator op) \<noteq> None" using t(1) by simp
    ultimately show thesis using that [of c "flip_operator op" v t] t by simp
  qed
qed

lemma translate_in_list_Some:
  assumes "translate_in_list e xs neg sch = Some sql"
  obtains c :: column and vs where "filter_pred sch (InList e xs neg) (PgIn (c_name c) neg (map lit_of vs))"
    "vs \<noteq> []" "list_all (\<lambda>v. literal_sql v \<noteq> None) vs"
    "sql = quote_ident (c_name c) @ '' '' @ (if neg then ''NOT IN'' else ''IN'') @ '' ('' @
      join '', '' (map (\<lambda>v. the (literal_sql v)) vs) @ '')''"
proof -
  from assms obtain c items where c: "e = Column c" "has_column sch (c_name c)" "xs \<noteq> []"
      and items: "collect_option (\<lambda>x. Option.bind (as_literal x) literal_sql) xs = Some items"
      and sql: "sql = quote_ident (c_name c) @ '' '' @ (if neg then ''NOT IN'' else ''IN'') @ '' ('' @
          join '', '' items @ '')''"
    by (auto simp: translate_in_list_def bind_eq_Some_conv split: option.splits if_splits)
  have "list_all2 (\<lambda>x t. \<exists>v. x = Literal v \<and> literal_sql v = Some t) xs items"
    using items by (simp add: collect_option_Some bind_eq_Some_conv)
  then have "\<exists>vs. xs = map Literal vs \<and> items = map (\<lambda>v. the (literal_sql v)) vs \<and>
      list_all (\<lambda>v. literal_sql v \<noteq> None) vs"
  proof (induction rule: list_all2_induct)
    case Nil
    then show ?case by simp
  next
    case (Cons x xs t ts)
    then obtain v vs where "x = Literal v" "literal_sql v = Some t" "xs = map Literal vs"
        "ts = map (\<lambda>v. the (literal_sql v)) vs" "list_all (\<lambda>v. literal_sql v \<noteq> None) vs" by auto
    then show ?case by (intro exI [of _ "v # vs"]) simp
  qed
  then obtain vs where vs: "xs = map Literal vs" "items = map (\<lambda>v. the (literal_sql v)) vs"
      "list_all (\<lambda>v. literal_sql v \<noteq> None) vs" by auto
  have "filter_pred sch (InList (Column c) (map Literal vs) neg) (PgIn (c_name c) neg (map lit_of vs))"
    using c vs by (intro filter_pred.in_list) (auto simp: pushable_def list_all_iff)
  then show thesis using that [of c vs] c vs sql by simp
qed

definition reads_as :: "string \<Rightarrow> pg_pred \<Rightarrow> bool" where
  "reads_as sql p \<longleftrightarrow> pred_ok p \<and>
     (\<forall>rest. delimited rest \<longrightarrow> lex (sql @ rest) = prepend (pred_toks p) (lex rest))"

lemma op_text_run: "comparison_op_sql op \<noteq> None \<Longrightarrow>
    op_text op \<noteq> [] \<and> list_all is_op (op_text op) \<and> op_run_ok (op_text op)"
  by (cases op) (simp_all add: op_text_def is_op_def op_run_ok_def)

lemma not_at_blank [simp]: "not_at dquote (CHR '' '' # s)" "not_at squote (CHR '' '' # s)"
  by (simp_all add: not_at_def)

lemma reads_as_cmp:
  assumes "literal_sql v = Some t" and "comparison_op_sql op \<noteq> None"
  shows "reads_as (quote_ident c @ '' '' @ op_text op @ '' '' @ t) (PgCmp c op (lit_of v))"
proof -
  note op = op_text_run [OF assms(2)]
  have "lex (t @ rest) = prepend (lit_toks (lit_of v)) (lex rest)" if "delimited rest" for rest
    using lit.lex_printed [of v rest] assms(1) that by simp
  with op show ?thesis
    using assms literal_sql_lit [OF assms(1)]
    by (simp add: reads_as_def lex_quote_ident lex_blank lex_op)
qed

lemma lex_keywords:
  "lex (''IS NULL'' @ rest) = prepend [TWord ''IS'', TWord ''NULL''] (lex rest)"
  "lex (''IS NOT NULL'' @ rest) = prepend [TWord ''IS'', TWord ''NOT'', TWord ''NULL''] (lex rest)"
  "lex (''IN ('' @ rest') = prepend [TWord ''IN'', TPunct CHR ''(''] (lex rest')"
  "lex (''NOT IN ('' @ rest') = prepend [TWord ''NOT'', TWord ''IN'', TPunct CHR ''(''] (lex rest')"
  if "delimited rest"
  using lex_letters [of "''NULL''" rest] lex_letters [of "''IS''" "'' NULL'' @ rest"]
    lex_letters [of "''IS''" "'' NOT NULL'' @ rest"] lex_letters [of "''NOT''" "'' NULL'' @ rest"]
    lex_letters [of "''IN''" "'' ('' @ rest'"] lex_letters [of "''NOT''" "'' IN ('' @ rest'"] that
  by (simp_all add: lex_blank lex_punct is_ascii_alphabetic_def is_ascii_uppercase_def)

lemma reads_as_null:
  "reads_as (quote_ident c @ '' IS NULL'') (PgIsNull c)"
  "reads_as (quote_ident c @ '' IS NOT NULL'') (PgIsNotNull c)"
  using lex_keywords(1,2) by (simp_all add: reads_as_def lex_quote_ident lex_blank)

lemma reads_as_in:
  assumes "vs \<noteq> []" and "list_all (\<lambda>v. literal_sql v \<noteq> None) vs"
  shows "reads_as (quote_ident c @ '' '' @ (if neg then ''NOT IN'' else ''IN'') @ '' ('' @
      join '', '' (map (\<lambda>v. the (literal_sql v)) vs) @ '')'') (PgIn c neg (map lit_of vs))"
proof -
  have "lex (join '', '' (map (\<lambda>v. the (literal_sql v)) vs) @ '')'' @ rest) =
      prepend (sep_toks [TPunct CHR '',''] (map (\<lambda>v. lit_toks (lit_of v)) vs) @ [TPunct CHR '')'']) (lex rest)"
    for rest
    using lit.lex_joined [OF sep_ok_comma _ assms(2,1), of "'')'' @ rest"] by (simp add: lex_punct)
  moreover have "list_all lit_ok (map lit_of vs)"
    using assms(2) literal_sql_lit by (auto simp: list_all_iff)
  ultimately show ?thesis
    using assms(1) lex_keywords(3,4) [of "[]"]
    by (simp add: reads_as_def lex_quote_ident lex_blank comp_def)
qed

lemma reads_as_and:
  assumes "reads_as a p" and "reads_as b q"
  shows "reads_as (''('' @ a @ '' AND '' @ b @ '')'') (PgAnd p q)"
proof -
  have "lex ('' AND '' @ s) = prepend [TWord ''AND''] (lex s)" "delimited ('' AND '' @ s)" for s
    using sep_ok_and by (simp_all add: sep_ok_def)
  with assms show ?thesis by (simp add: reads_as_def lex_punct)
qed

lemma translate_filter_reads:
  "translate_filter e sch = Some sql \<Longrightarrow> \<exists>p. filter_pred sch e p \<and> reads_as sql p"
proof (induction e sch arbitrary: sql rule: translate_filter.induct)
  case (1 l op r sch)
  show ?case
  proof (cases "op = And")
    case True
    with "1.prems" obtain a b where ab: "translate_filter l sch = Some a" "translate_filter r sch = Some b"
        "sql = ''('' @ a @ '' AND '' @ b @ '')''"
      by (auto split: option.splits)
    from "1.IH" True ab obtain p q where "filter_pred sch l p" "reads_as a p"
        "filter_pred sch r q" "reads_as b q" by metis
    with True ab(3) show ?thesis by (metis filter_pred.conj reads_as_and)
  next
    case False
    with "1.prems" have "translate_comparison l op r sch = Some sql" by simp
    then show ?thesis by (rule translate_comparison_Some) (blast intro: reads_as_cmp)
  qed
next
  case (2 e sch)
  then obtain c where "e = Column c" "has_column sch (c_name c)" "sql = quote_ident (c_name c) @ '' IS NULL''"
    by (auto simp: bind_eq_Some_conv)
  then show ?case using filter_pred.is_null reads_as_null(1) by blast
next
  case (3 e sch)
  then obtain c where "e = Column c" "has_column sch (c_name c)" "sql = quote_ident (c_name c) @ '' IS NOT NULL''"
    by (auto simp: bind_eq_Some_conv)
  then show ?case using filter_pred.is_not_null reads_as_null(2) by blast
next
  case (4 e xs neg sch)
  then have "translate_in_list e xs neg sch = Some sql" by simp
  then show ?case by (rule translate_in_list_Some) (blast intro: reads_as_in)
qed simp_all

lemma reads_as_read: "reads_as sql p \<Longrightarrow> read_pred sql = Some p"
proof -
  assume r: "reads_as sql p"
  then have "lex (sql @ []) = prepend (pred_toks p) (lex [])"
    unfolding reads_as_def using delimited_simps(1) by metis
  with r read_pred_toks [of sql p] show ?thesis by (simp add: reads_as_def)
qed

end
