(* ===== verification/Pushdown_Sound.thy ===== *)
theory Pushdown_Sound
  imports Pushdown_Spec
begin

text \<open>
  The meaning of expressions and conditions, and the properties of \<open>translate_filter\<close>. A row
  gives each column a value or \<open>None\<close>, SQL's NULL; a condition is true, false or unknown
  (\<open>None\<close>). DataFusion's comparison \<open>cmp\<close>, its reading \<open>lv\<close> of literals, its value
  \<open>other\<close> of expressions outside the grammar and PostgreSQL's comparison \<open>pcmp\<close> of a column
  with a literal are parameters.
\<close>

type_synonym 'v row = "string \<Rightarrow> 'v option"

definition and3 :: "bool option \<Rightarrow> bool option \<Rightarrow> bool option" where
  "and3 a b = (if a = Some False \<or> b = Some False then Some False
               else if a = None \<or> b = None then None else Some True)"

definition in3 :: "('v \<Rightarrow> 'v \<Rightarrow> bool) \<Rightarrow> bool \<Rightarrow> 'v option \<Rightarrow> 'v option list \<Rightarrow> bool option" where
  "in3 eq neg x ys =
     (case x of None \<Rightarrow> None
      | Some x \<Rightarrow> if list_ex (\<lambda>y. case y of Some y \<Rightarrow> eq x y | None \<Rightarrow> False) ys then Some (\<not> neg)
                   else if None \<in> set ys then None else Some neg)"

definition df_value :: "(scalar \<Rightarrow> 'v option) \<Rightarrow> (expr \<Rightarrow> 'v option) \<Rightarrow> 'v row \<Rightarrow> expr \<Rightarrow> 'v option" where
  "df_value lv other row e =
     (case e of Column c \<Rightarrow> row (c_name c) | Literal v \<Rightarrow> lv v | _ \<Rightarrow> other e)"

fun df_eval ::
  "(operator \<Rightarrow> 'v \<Rightarrow> 'v \<Rightarrow> bool) \<Rightarrow> (scalar \<Rightarrow> 'v option) \<Rightarrow> (expr \<Rightarrow> 'v option) \<Rightarrow>
   (expr \<Rightarrow> bool option) \<Rightarrow> 'v row \<Rightarrow> expr \<Rightarrow> bool option" where
  "df_eval cmp lv other truth row (BinaryExpr l op r) =
     (if op = And then and3 (df_eval cmp lv other truth row l) (df_eval cmp lv other truth row r)
      else if comparison_op_sql op = None then truth (BinaryExpr l op r)
      else (case (df_value lv other row l, df_value lv other row r) of
              (Some x, Some y) \<Rightarrow> Some (cmp op x y) | _ \<Rightarrow> None))"
| "df_eval cmp lv other truth row (IsNull e) = Some (df_value lv other row e = None)"
| "df_eval cmp lv other truth row (IsNotNull e) = Some (df_value lv other row e \<noteq> None)"
| "df_eval cmp lv other truth row (InList e xs neg) =
     in3 (cmp Eq) neg (df_value lv other row e) (map (df_value lv other row) xs)"
| "df_eval cmp lv other truth row e = truth e"

fun pg_eval :: "(string \<Rightarrow> operator \<Rightarrow> 'v \<Rightarrow> pg_lit \<Rightarrow> bool) \<Rightarrow> 'v row \<Rightarrow> pg_pred \<Rightarrow> bool option" where
  "pg_eval pcmp row (PgCmp c op v) = map_option (\<lambda>x. pcmp c op x v) (row c)"
| "pg_eval pcmp row (PgIsNull c) = Some (row c = None)"
| "pg_eval pcmp row (PgIsNotNull c) = Some (row c \<noteq> None)"
| "pg_eval pcmp row (PgIn c neg vs) =
     map_option (\<lambda>x. if list_ex (pcmp c Eq x) vs then \<not> neg else neg) (row c)"
| "pg_eval pcmp row (PgAnd p q) = and3 (pg_eval pcmp row p) (pg_eval pcmp row q)"

text \<open>Both sides compare a column with a pushable literal alike, and DataFusion's comparison
  operators mirror each other.\<close>

definition agree ::
  "(operator \<Rightarrow> 'v \<Rightarrow> 'v \<Rightarrow> bool) \<Rightarrow> (scalar \<Rightarrow> 'v option) \<Rightarrow>
   (string \<Rightarrow> operator \<Rightarrow> 'v \<Rightarrow> pg_lit \<Rightarrow> bool) \<Rightarrow> 'v row \<Rightarrow> bool" where
  "agree cmp lv pcmp row \<longleftrightarrow>
     (\<forall>c x op s. row c = Some x \<longrightarrow> pushable op s \<longrightarrow> comparison_op_sql op \<noteq> None \<longrightarrow>
        (\<exists>y. lv s = Some y \<and> pcmp c op x (lit_of s) = cmp op x y \<and>
             cmp (flip_operator op) y x = cmp op x y))"

lemma agreeD:
  assumes "agree cmp lv pcmp row" and "row c = Some x" and "pushable op s"
    and "comparison_op_sql op \<noteq> None"
  obtains y where "lv s = Some y" "pcmp c op x (lit_of s) = cmp op x y"
    "cmp (flip_operator op) y x = cmp op x y"
  using assms unfolding agree_def by metis

lemma flip_flip [simp]: "flip_operator (flip_operator op) = op"
  by (cases op) simp_all

lemma is_ordering_flip [simp]: "is_ordering (flip_operator op) = is_ordering op"
  by (cases op) simp_all

lemma pushable_flip [simp]: "pushable (flip_operator op) v = pushable op v"
  by (simp add: pushable_def)

lemma comparison_not_And: "comparison_op_sql op \<noteq> None \<Longrightarrow> op \<noteq> And"
  by auto

lemma in3_pushed:
  assumes ag: "agree cmp lv pcmp row" and x: "row c = Some x" and vs: "list_all (pushable Eq) vs"
  shows "in3 (cmp Eq) neg (Some x) (map lv vs) =
    Some (if list_ex (\<lambda>v. pcmp c Eq x (lit_of v)) vs then \<not> neg else neg)"
proof -
  have "\<exists>y. lv v = Some y \<and> pcmp c Eq x (lit_of v) = cmp Eq x y" if "v \<in> set vs" for v
    using agreeD [OF ag x, of Eq v] vs that by (auto simp: list_all_iff)
  then obtain g where g: "lv v = Some (g v) \<and> pcmp c Eq x (lit_of v) = cmp Eq x (g v)"
    if "v \<in> set vs" for v by metis
  then have "map lv vs = map (\<lambda>v. Some (g v)) vs" by simp
  moreover have "list_ex (\<lambda>v. pcmp c Eq x (lit_of v)) vs = list_ex (\<lambda>v. cmp Eq x (g v)) vs"
    using g by (auto simp: list_ex_iff)
  ultimately show ?thesis by (auto simp: in3_def list_ex_iff)
qed

lemma filter_pred_eval:
  assumes "filter_pred sch e p" and "agree cmp lv pcmp row"
  shows "pg_eval pcmp row p = df_eval cmp lv other truth row e"
  using assms
proof induction
  case (cmp op v c)
  show ?case
  proof (cases "row (c_name c)")
    case (Some x)
    obtain y where "lv v = Some y" "pcmp (c_name c) op x (lit_of v) = cmp op x y"
      using agreeD [OF cmp.prems Some cmp.hyps(2,1)] .
    with Some cmp comparison_not_And show ?thesis by (auto simp: df_value_def)
  qed (use cmp comparison_not_And in \<open>auto simp: df_value_def\<close>)
next
  case (flipped op v c)
  show ?case
  proof (cases "row (c_name c)")
    case (Some x)
    obtain y where "lv v = Some y" "pcmp (c_name c) (flip_operator op) x (lit_of v) = cmp (flip_operator op) x y"
      "cmp (flip_operator (flip_operator op)) y x = cmp (flip_operator op) x y"
      using agreeD [OF flipped.prems Some, of "flip_operator op" v] flipped.hyps by auto
    with Some flipped comparison_not_And show ?thesis by (auto simp: df_value_def)
  qed (use flipped comparison_not_And in \<open>auto simp: df_value_def split: option.splits\<close>)
next
  case (in_list c vs neg)
  have m: "map (df_value lv other row) (map Literal vs) = map lv vs"
    by (simp add: df_value_def)
  show ?case
  proof (cases "row (c_name c)")
    case (Some x)
    from in3_pushed [OF in_list.prems Some in_list.hyps(3), of neg] Some show ?thesis
      by (simp only: df_eval.simps m) (simp add: df_value_def list_ex_iff)
  qed (simp add: df_value_def in3_def)
qed (simp_all add: df_value_def)

fun pred_columns :: "pg_pred \<Rightarrow> string set" where
  "pred_columns (PgCmp c op v) = {c}"
| "pred_columns (PgIsNull c) = {c}"
| "pred_columns (PgIsNotNull c) = {c}"
| "pred_columns (PgIn c neg vs) = {c}"
| "pred_columns (PgAnd p q) = pred_columns p \<union> pred_columns q"

lemma filter_pred_columns: "filter_pred sch e p \<Longrightarrow> pred_columns p \<subseteq> f_name ` set sch"
  by (induction rule: filter_pred.induct) (auto simp: has_column_def)

text \<open>The translation accepts every expression of the grammar.\<close>

lemma column_sql_has: "has_column sch (c_name c) \<Longrightarrow> column_sql c sch = Some (quote_ident (c_name c))"
  by simp

lemma pushable_items:
  "list_all (pushable Eq) vs \<Longrightarrow>
   collect_option (\<lambda>x. Option.bind (as_literal x) literal_sql) (map Literal vs) =
     Some (map (\<lambda>v. the (literal_sql v)) vs)"
  by (induction vs) (auto simp: pushable_def as_literal_def)

lemma filter_pred_translates: "filter_pred sch e p \<Longrightarrow> translate_filter e sch \<noteq> None"
proof (induction rule: filter_pred.induct)
  case (cmp op v c)
  then have "op \<noteq> And" by auto
  with cmp show ?case
    by (auto simp: translate_comparison_def as_column_def as_literal_def pushable_def column_sql_has
        split: option.splits)
next
  case (flipped op v c)
  then have "op \<noteq> And" by auto
  moreover obtain s where "comparison_op_sql (flip_operator op) = Some s"
    using flipped.hyps(1) comparison_flip [of op] by (cases "comparison_op_sql (flip_operator op)") auto
  ultimately show ?case using flipped
    by (auto simp: translate_comparison_def as_column_def as_literal_def pushable_def column_sql_has
        split: option.splits)
next
  case (in_list c vs neg)
  then show ?case
    by (simp add: translate_in_list_def as_column_def column_sql_has pushable_items)
qed (auto simp: as_column_def column_sql_has)

subsection \<open>A source for the witnesses\<close>

text \<open>Values are literals; numbers are ordered by their value, other values are not.\<close>

definition num_val :: "pg_lit \<Rightarrow> int" where
  "num_val l = (case l of PgNum s \<Rightarrow> (case parse_sint 64 s of Some i \<Rightarrow> i | None \<Rightarrow> 0) | _ \<Rightarrow> 0)"

fun lit_cmp :: "operator \<Rightarrow> pg_lit \<Rightarrow> pg_lit \<Rightarrow> bool" where
  "lit_cmp Eq x y = (x = y)"
| "lit_cmp NotEq x y = (x \<noteq> y)"
| "lit_cmp Lt x y = (num_val x < num_val y)"
| "lit_cmp LtEq x y = (num_val x \<le> num_val y)"
| "lit_cmp Gt x y = (num_val x > num_val y)"
| "lit_cmp GtEq x y = (num_val x \<ge> num_val y)"
| "lit_cmp _ x y = False"

definition lit_value :: "scalar \<Rightarrow> pg_lit option" where
  "lit_value s = (if literal_sql s = None then None else Some (lit_of s))"

lemma lit_agree: "agree lit_cmp lit_value (\<lambda>c. lit_cmp) row"
proof -
  have "lit_cmp (flip_operator op) y x = lit_cmp op x y" for op x y
    by (cases op) auto
  then show ?thesis by (simp add: agree_def lit_value_def pushable_def)
qed

definition table_fields :: schema where
  "table_fields = [\<lparr>f_name = ''id'', f_type = Int64, f_nullable = False, f_meta = Map.empty\<rparr>,
     \<lparr>f_name = ''name'', f_type = Utf8, f_nullable = True, f_meta = Map.empty\<rparr>]"

definition col :: "string \<Rightarrow> expr" where
  "col c = Column \<lparr>c_relation = None, c_name = c\<rparr>"

definition sample_filter :: expr where
  "sample_filter = BinaryExpr (BinaryExpr (Literal (SInt64 (Some (-5)))) Lt (col ''id'')) And
     (InList (col ''name'') [Literal (SUtf8 (Some [squote])), Literal (SUtf8 (Some ''; --''))] True)"

lemma sample_filter_sql:
  "translate_filter sample_filter table_fields =
     Some (''('' @ [dquote] @ ''id'' @ [dquote] @ '' > -5 AND '' @ [dquote] @ ''name'' @ [dquote] @
           '' NOT IN ('' @ replicate 4 squote @ '', '' @ [squote] @ ''; --'' @ [squote] @ ''))'')"
  by code_simp

definition text_literal :: "expr \<Rightarrow> bool" where
  "text_literal e \<longleftrightarrow> (case e of Literal v \<Rightarrow> is_string_literal v | _ \<Rightarrow> False)"

fun has_string_ordering :: "expr \<Rightarrow> bool" where
  "has_string_ordering (BinaryExpr l op r) =
     (if op = And then has_string_ordering l \<or> has_string_ordering r
      else is_ordering op \<and> (text_literal l \<or> text_literal r))"
| "has_string_ordering _ = False"

lemma no_string_ordering: "filter_pred sch e p \<Longrightarrow> \<not> has_string_ordering e"
  by (induction rule: filter_pred.induct) (auto simp: text_literal_def pushable_def)

subsection \<open>Properties\<close>

text \<open>C10: every pushed filter is read by PostgreSQL as one complete condition over columns of the
  table, whatever the literals and column names contain, and that condition has on every row the
  three-valued truth value DataFusion gives the expression, provided both sides compare columns
  with the pushed literals alike. String orderings are not among the comparisons they need to
  agree on.\<close>

theorem translate_filter_sound:
  assumes "translate_filter e sch = Some sql" and "agree cmp lv pcmp row"
  shows "\<exists>p. read_pred sql = Some p \<and> pred_columns p \<subseteq> f_name ` set sch \<and>
    pg_eval pcmp row p = df_eval cmp lv other truth row e"
  using translate_filter_reads [OF assms(1)] reads_as_read filter_pred_columns
    filter_pred_eval [OF _ assms(2)] by metis

lemma translate_filter_sound_witness:
  "\<exists>p. read_pred (the (translate_filter sample_filter table_fields)) = Some p \<and>
     pred_columns p \<subseteq> {''id'', ''name''} \<and>
     pg_eval (\<lambda>c. lit_cmp) [''id'' \<mapsto> PgNum ''7'', ''name'' \<mapsto> PgText ''x''] p = Some True"
proof -
  have "df_eval lit_cmp lit_value (\<lambda>e. None) (\<lambda>e. None) [''id'' \<mapsto> PgNum ''7'', ''name'' \<mapsto> PgText ''x'']
      sample_filter = Some True"
    by code_simp
  then show ?thesis
    using translate_filter_sound [OF sample_filter_sql lit_agree, of "[''id'' \<mapsto> PgNum ''7'', ''name'' \<mapsto> PgText ''x'']"
        "\<lambda>e. None" "\<lambda>e. None"] sample_filter_sql
    by (simp add: table_fields_def)
qed


text \<open>A string ordering is never pushed, with the column on either side and at any depth of a
  conjunction: PostgreSQL orders text by collation, Arrow by bytes.\<close>

lemma string_ordering_not_pushed:
  assumes "has_string_ordering e"
  shows "translate_filter e sch = None"
  using assms no_string_ordering translate_filter_reads
  by (metis not_None_eq)

lemma string_ordering_example:
  "translate_filter (BinaryExpr (Literal (SUtf8 (Some ''a''))) Lt (col ''name'')) table_fields = None"
  by (rule string_ordering_not_pushed) (simp add: text_literal_def)

text \<open>The classification looks at the names of the schema's columns only, never at their types
  or at the PostgreSQL type recorded in their metadata: what is pushed for a text column is pushed
  unchanged for a \<open>uuid\<close>, \<open>json\<close> or \<open>jsonb\<close> column.\<close>

lemma translate_filter_names_only:
  assumes "map f_name sch = map f_name sch'"
  shows "translate_filter e sch = translate_filter e sch'"
proof -
  have "has_column sch n = has_column sch' n" for n
    using arg_cong [OF assms, of set] by (simp add: has_column_def)
  then have "column_sql c sch = column_sql c sch'" for c :: column
    by (metis column_sql_Some option.exhaust)
  then have "translate_comparison l op r sch = translate_comparison l op r sch'"
    "translate_in_list e xs neg sch = translate_in_list e xs neg sch'" for l op r e xs neg
    by (simp_all add: translate_comparison_def translate_in_list_def cong: option.case_cong if_cong)
  with \<open>\<And>c. column_sql c sch = column_sql c sch'\<close> show ?thesis
    by (induction e sch rule: translate_filter.induct) (simp_all split: option.splits)
qed

lemma translate_filter_names_example:
  "translate_filter (BinaryExpr (col ''id'') NotEq (Literal (SUtf8 (Some ''A0''))))
     [\<lparr>f_name = ''id'', f_type = Utf8, f_nullable = False, f_meta = [''igloo.pg_type'' \<mapsto> ''uuid'']\<rparr>] =
   Some ([dquote] @ ''id'' @ [dquote] @ '' <> '' @ [squote] @ ''A0'' @ [squote])"
proof -
  have "translate_filter (BinaryExpr (col ''id'') NotEq (Literal (SUtf8 (Some ''A0''))))
      [\<lparr>f_name = ''id'', f_type = Utf8, f_nullable = False, f_meta = Map.empty\<rparr>] =
      Some ([dquote] @ ''id'' @ [dquote] @ '' <> '' @ [squote] @ ''A0'' @ [squote])"
    by code_simp
  then show ?thesis
    using translate_filter_names_only [of
        "[\<lparr>f_name = ''id'', f_type = Utf8, f_nullable = False, f_meta = [''igloo.pg_type'' \<mapsto> ''uuid'']\<rparr>]"
        "[\<lparr>f_name = ''id'', f_type = Utf8, f_nullable = False, f_meta = Map.empty\<rparr>]"]
    by simp
qed

end
