(* ===== verification/Postgres_Table.thy ===== *)
theory Postgres_Table
  imports Pushdown_Sound
begin

text \<open>
  \<open>src/postgres_table.rs\<close>: the table provider. \<open>build_scan_sql\<close>, \<open>pushed_limit\<close>,
  \<open>supports_filters_pushdown\<close> and \<open>scan\<close> with its column decoder.

  The connected client is a parameter: what \<open>query\<close> and \<open>query_one\<close> answer to a statement,
  and \<open>try_get\<close>, which reads a cell as a requested Rust type. A decoded value is given by what
  the code takes from it: a \<open>Uuid\<close> or JSON value by its \<open>to_string\<close>, an instant by its
  nanoseconds and a date by its days since the epoch. The relaxed atomic counter is a \<open>u64\<close>
  word.
\<close>

subsection \<open>The statement of a scan\<close>

definition build_scan_sql ::
  "string \<Rightarrow> string \<Rightarrow> schema \<Rightarrow> string list \<Rightarrow> nat option \<Rightarrow> string" where
  "build_scan_sql schema_name table_name projected_fields where_conjuncts limit =
     (let where_clause = (if where_conjuncts = [] then [] else '' WHERE '' @ join '' AND '' where_conjuncts);
          limit_clause = (case limit of Some n \<Rightarrow> '' LIMIT '' @ show_nat n | None \<Rightarrow> []);
          relation = quote_relation schema_name table_name
      in if projected_fields = []
         then ''SELECT COUNT(*) FROM (SELECT 1 FROM '' @ relation @ where_clause @ limit_clause @ '') AS t''
         else ''SELECT '' @ join '', '' (map (\<lambda>f. quote_ident (f_name f)) projected_fields) @
              '' FROM '' @ relation @ where_clause @ limit_clause)"

definition pushed_limit :: "nat option \<Rightarrow> nat \<Rightarrow> nat \<Rightarrow> nat option" where
  "pushed_limit limit translated offered = (if translated = offered then limit else None)"

subsection \<open>The provider\<close>

datatype rust_type =
    R_i16 | R_i32 | R_i64 | R_f32 | R_f64 | R_bool | R_Uuid | R_Json | R_String | R_Bytes
  | R_DateTimeUtc | R_NaiveDateTime | R_NaiveDate

datatype rust_value =
    V_int int | V_f32 f32 | V_f64 f64 | V_bool bool | V_text string | V_bytes string
  | V_nanos int | V_days int

record 'cell pg_client =
  query :: "string \<Rightarrow> string + 'cell list list"
  query_one :: "string \<Rightarrow> string + int"
  try_get :: "rust_type \<Rightarrow> 'cell \<Rightarrow> string + rust_value option"

record 'cell postgres_table =
  client :: "'cell pg_client"
  schema_name :: string
  table_name :: string
  schema :: schema
  filter_pushdown :: bool
  rows_fetched :: u64

datatype df_error = DfExternal igloo_error | DfArrow string | DfExecution string

datatype pushdown_class = Inexact | Unsupported

definition from_client ::
  "'cell pg_client \<Rightarrow> string \<Rightarrow> string \<Rightarrow> schema \<Rightarrow> 'cell postgres_table" where
  "from_client cl s t sch =
     \<lparr>client = cl, schema_name = s, table_name = t, schema = sch, filter_pushdown = True,
      rows_fetched = 0\<rparr>"

definition try_new ::
  "(string \<Rightarrow> string + 'cell pg_client) \<Rightarrow> string \<Rightarrow> string \<Rightarrow> string \<Rightarrow> schema \<Rightarrow>
   igloo_error + 'cell postgres_table" where
  "try_new connect conn_str s t sch =
     and_then (map_err EPostgres (connect conn_str)) (\<lambda>cl. Inr (from_client cl s t sch))"

definition with_filter_pushdown :: "'cell postgres_table \<Rightarrow> bool \<Rightarrow> 'cell postgres_table" where
  "with_filter_pushdown tbl enabled = tbl\<lparr>filter_pushdown := enabled\<rparr>"

definition supports_filters_pushdown :: "'cell postgres_table \<Rightarrow> expr list \<Rightarrow> pushdown_class list" where
  "supports_filters_pushdown tbl filters =
     map (\<lambda>f. if filter_pushdown tbl \<and> translate_filter f (schema tbl) \<noteq> None
              then Inexact else Unsupported) filters"

subsection \<open>Decoding a column\<close>

definition pg_type_meta_key :: string where
  "pg_type_meta_key = ''igloo.pg_type''"

text \<open>The Rust type the decoder asks for; \<open>None\<close> for an unsupported Arrow type.\<close>

definition decode_as :: "data_type \<Rightarrow> string option \<Rightarrow> rust_type option" where
  "decode_as dt pg_kind =
     (case dt of
        Int16 \<Rightarrow> Some R_i16
      | Int32 \<Rightarrow> Some R_i32
      | Int64 \<Rightarrow> Some R_i64
      | Float32 \<Rightarrow> Some R_f32
      | Float64 \<Rightarrow> Some R_f64
      | Boolean \<Rightarrow> Some R_bool
      | Utf8 \<Rightarrow>
          if pg_kind = Some ''uuid'' then Some R_Uuid
          else if pg_kind = Some ''json'' \<or> pg_kind = Some ''jsonb'' then Some R_Json
          else Some R_String
      | Binary \<Rightarrow> Some R_Bytes
      | Timestamp u tz \<Rightarrow>
          if u = Nanosecond then Some (if tz \<noteq> None then R_DateTimeUtc else R_NaiveDateTime) else None
      | Date32 \<Rightarrow> Some R_NaiveDate
      | OtherType _ \<Rightarrow> None)"

text \<open>\<open>timestamp_nanos_opt\<close>: the nanoseconds when they fit an \<open>i64\<close>.\<close>

definition timestamp_nanos_opt :: "int \<Rightarrow> int option" where
  "timestamp_nanos_opt n = (if - (2 ^ 63) \<le> n \<and> n < 2 ^ 63 then Some n else None)"

definition out_of_range :: df_error where
  "out_of_range = DfExecution ''timestamp is out of range for nanosecond precision''"

text \<open>The finished array: its Arrow type and its values; a timestamp with a zone is stamped with
  the zone \<open>+00:00\<close> whatever zone the field has.\<close>

definition array_type :: "data_type \<Rightarrow> data_type" where
  "array_type dt =
     (case dt of Timestamp Nanosecond (Some tz) \<Rightarrow> Timestamp Nanosecond (Some ''+00:00'') | _ \<Rightarrow> dt)"

fun append_value :: "data_type \<Rightarrow> rust_value \<Rightarrow> df_error + scalar" where
  "append_value Int16 (V_int i) = Inr (SInt16 (Some i))"
| "append_value Int32 (V_int i) = Inr (SInt32 (Some i))"
| "append_value Int64 (V_int i) = Inr (SInt64 (Some i))"
| "append_value Float32 (V_f32 f) = Inr (SFloat32 (Some f))"
| "append_value Float64 (V_f64 f) = Inr (SFloat64 (Some f))"
| "append_value Boolean (V_bool b) = Inr (SBoolean (Some b))"
| "append_value Utf8 (V_text s) = Inr (SUtf8 (Some s))"
| "append_value Binary (V_bytes b) = Inr (SBinary (Some b))"
| "append_value (Timestamp Nanosecond tz) (V_nanos n) =
     (case timestamp_nanos_opt n of None \<Rightarrow> Inl out_of_range
      | Some t \<Rightarrow> Inr (STimestampNanosecond (Some t) (map_option (\<lambda>_. ''+00:00'') tz)))"
| "append_value Date32 (V_days d) = Inr (SDate32 (Some d))"
| "append_value dt _ = Inl (DfExternal (EUnsupportedArrowType dt))"

fun append_null :: "data_type \<Rightarrow> scalar" where
  "append_null Int16 = SInt16 None"
| "append_null Int32 = SInt32 None"
| "append_null Int64 = SInt64 None"
| "append_null Float32 = SFloat32 None"
| "append_null Float64 = SFloat64 None"
| "append_null Boolean = SBoolean None"
| "append_null Utf8 = SUtf8 None"
| "append_null Binary = SBinary None"
| "append_null (Timestamp Nanosecond tz) = STimestampNanosecond None (map_option (\<lambda>_. ''+00:00'') tz)"
| "append_null Date32 = SDate32 None"
| "append_null dt = SOther dt []"

definition build_cell ::
  "'cell pg_client \<Rightarrow> data_type \<Rightarrow> rust_type \<Rightarrow> nat \<Rightarrow> 'cell list \<Rightarrow> df_error + scalar" where
  "build_cell cl dt rt col_idx row =
     (case (if col_idx < length row then try_get cl rt (row ! col_idx) else Inl ''invalid column index'') of
        Inr (Some v) \<Rightarrow> append_value dt v
      | Inr None \<Rightarrow> Inr (append_null dt)
      | Inl e \<Rightarrow> Inl (DfExternal (EPostgres e)))"

definition build_column ::
  "'cell pg_client \<Rightarrow> 'cell list list \<Rightarrow> nat \<times> field \<Rightarrow> df_error + data_type \<times> scalar list" where
  "build_column cl rows = (\<lambda>(col_idx, fld).
     (case decode_as (f_type fld) (f_meta fld pg_type_meta_key) of
        None \<Rightarrow> Inl (DfExternal (EUnsupportedArrowType (f_type fld)))
      | Some rt \<Rightarrow>
          and_then (collect_result (build_cell cl (f_type fld) rt col_idx) rows)
            (\<lambda>vs. Inr (array_type (f_type fld), vs))))"

record batch =
  b_schema :: schema
  b_columns :: "(data_type \<times> scalar list) list"
  b_rows :: nat

subsection \<open>The scan\<close>

definition project :: "schema \<Rightarrow> nat list \<Rightarrow> string + schema" where
  "project sch p =
     (if list_all (\<lambda>i. i < length sch) p then Inr (map (\<lambda>i. sch ! i) p)
      else Inl ''project index out of bounds'')"

definition where_conjuncts :: "'cell postgres_table \<Rightarrow> expr list \<Rightarrow> string list" where
  "where_conjuncts tbl filters =
     (if filter_pushdown tbl then List.map_filter (\<lambda>f. translate_filter f (schema tbl)) filters else [])"

text \<open>\<open>RecordBatch::try_new\<close> is Arrow's: \<open>mk_batch\<close>.\<close>

definition scan ::
  "(schema \<Rightarrow> (data_type \<times> scalar list) list \<Rightarrow> string + batch) \<Rightarrow> 'cell postgres_table \<Rightarrow>
   nat list option \<Rightarrow> expr list \<Rightarrow> nat option \<Rightarrow> (df_error + batch) \<times> 'cell postgres_table" where
  "scan mk_batch tbl projection filters limit =
     (case (case projection of Some p \<Rightarrow> project (schema tbl) p | None \<Rightarrow> Inr (schema tbl)) of
        Inl e \<Rightarrow> (Inl (DfArrow e), tbl)
      | Inr projected \<Rightarrow>
          let conj = where_conjuncts tbl filters;
              effective_limit = pushed_limit limit (length conj) (length filters);
              sql = build_scan_sql (schema_name tbl) (table_name tbl) projected conj effective_limit
          in if projected = []
             then (case query_one (client tbl) sql of
                     Inl e \<Rightarrow> (Inl (DfExternal (EPostgres e)), tbl)
                   | Inr n \<Rightarrow>
                       (Inr \<lparr>b_schema = [], b_columns = [], b_rows = unat (word_of_int n :: u64)\<rparr>, tbl))
             else (case query (client tbl) sql of
                     Inl e \<Rightarrow> (Inl (DfExternal (EPostgres e)), tbl)
                   | Inr rows \<Rightarrow>
                       let tbl = tbl\<lparr>rows_fetched := rows_fetched tbl + of_nat (length rows)\<rparr>
                       in (and_then (collect_result (build_column (client tbl) rows)
                                       (enumerate 0 projected))
                             (\<lambda>cols. map_err DfArrow (mk_batch projected cols)), tbl)))"

subsection \<open>How the statement is read\<close>

definition where_toks :: "pg_pred list \<Rightarrow> token list" where
  "where_toks ps =
     (if ps = [] then [] else TWord ''WHERE'' # sep_toks [TWord ''AND''] (map pred_toks ps))"

definition limit_toks :: "nat option \<Rightarrow> token list" where
  "limit_toks limit =
     (case limit of Some n \<Rightarrow> [TWord ''LIMIT'', TNumber (show_nat n)] | None \<Rightarrow> [])"

definition relation_toks :: "string \<Rightarrow> string \<Rightarrow> token list" where
  "relation_toks s t = [TIdent s, TPunct CHR ''.'', TIdent t]"

definition scan_toks :: "string \<Rightarrow> string \<Rightarrow> string list \<Rightarrow> pg_pred list \<Rightarrow> nat option \<Rightarrow> token list" where
  "scan_toks s t cols ps limit =
     (if cols = []
      then [TWord ''SELECT'', TWord ''COUNT'', TPunct CHR ''('', TOp ''*'', TPunct CHR '')'', TWord ''FROM'',
            TPunct CHR ''('', TWord ''SELECT'', TNumber ''1'', TWord ''FROM''] @
           relation_toks s t @ where_toks ps @ limit_toks limit @
           [TPunct CHR '')'', TWord ''AS'', TWord ''t'']
      else [TWord ''SELECT''] @ sep_toks [TPunct CHR '',''] (map (\<lambda>c. [TIdent c]) cols) @
           [TWord ''FROM''] @ relation_toks s t @ where_toks ps @ limit_toks limit)"

text \<open>The conjuncts are a printer of conditions.\<close>

interpretation conjunct: sql_printer "fst :: string \<times> pg_pred \<Rightarrow> string" "\<lambda>x. pred_toks (snd x)"
  "\<lambda>x. reads_as (fst x) (snd x)"
  by unfold_locales (simp add: reads_as_def)

lemma lex_where:
  assumes "list_all2 reads_as conjs ps" and "delimited rest"
  shows "lex ((if conjs = [] then [] else '' WHERE '' @ join '' AND '' conjs) @ rest) =
    prepend (where_toks ps) (lex rest)"
proof (cases "conjs = []")
  case True
  with assms(1) show ?thesis by (simp add: where_toks_def)
next
  case False
  have len: "length conjs = length ps" using assms(1) by (rule list_all2_lengthD)
  then have ne: "ps \<noteq> []" using False by auto
  have "list_all (\<lambda>x. reads_as (fst x) (snd x)) (zip conjs ps)"
    using assms(1) by (auto simp: list_all_iff list_all2_iff)
  from conjunct.lex_joined [OF sep_ok_and assms(2) this] False len ne
  have j: "lex (join '' AND '' conjs @ rest) = prepend (sep_toks [TWord ''AND''] (map pred_toks ps)) (lex rest)"
    by (auto simp flip: map_map [unfolded comp_def] simp: comp_def)
  have "lex (''WHERE'' @ '' '' @ s) = prepend [TWord ''WHERE''] (lex s)" for s
    using lex_letters [of "''WHERE''" "'' '' @ s"]
    by (simp add: lex_blank is_ascii_alphabetic_def is_ascii_uppercase_def)
  with j ne False show ?thesis by (simp add: where_toks_def lex_blank)
qed

lemma lex_limit:
  assumes "delimited rest"
  shows "lex ((case limit of Some n \<Rightarrow> '' LIMIT '' @ show_nat n | None \<Rightarrow> []) @ rest) =
    prepend (limit_toks limit) (lex rest)"
proof (cases limit)
  case (Some n)
  have "lex (''LIMIT'' @ '' '' @ s) = prepend [TWord ''LIMIT''] (lex s)" for s
    using lex_letters [of "''LIMIT''" "'' '' @ s"]
    by (simp add: lex_blank is_ascii_alphabetic_def is_ascii_uppercase_def)
  moreover have "is_decimal (show_nat n)" by (simp add: is_decimal_def)
  ultimately show ?thesis
    using lex_decimal [OF assms] Some by (simp add: limit_toks_def lex_blank)
qed (simp add: limit_toks_def)

lemma lex_relation_rest:
  assumes "list_all2 reads_as conjs ps" and "delimited rest"
  shows "lex (quote_relation s t @ (if conjs = [] then [] else '' WHERE '' @ join '' AND '' conjs) @
      (case limit of Some n \<Rightarrow> '' LIMIT '' @ show_nat n | None \<Rightarrow> []) @ rest) =
    prepend (relation_toks s t @ where_toks ps @ limit_toks limit) (lex rest)"
proof -
  let ?l = "(case limit of Some n \<Rightarrow> '' LIMIT '' @ show_nat n | None \<Rightarrow> []) @ rest"
  let ?w = "(if conjs = [] then [] else '' WHERE '' @ join '' AND '' conjs) @ ?l"
  have d: "delimited ?l" using assms(2) by (cases limit) simp_all
  then have "delimited ?w" by simp
  then have "lex (quote_relation s t @ ?w) = prepend (relation_toks s t) (lex ?w)"
    by (simp add: lex_quote_relation relation_toks_def)
  also have "\<dots> = prepend (relation_toks s t @ where_toks ps @ limit_toks limit) (lex rest)"
    using lex_where [OF assms(1) d] lex_limit [OF assms(2), of limit] by simp
  finally show ?thesis by simp
qed

lemma lex_scan_heads:
  "lex (''SELECT COUNT(*) FROM (SELECT 1 FROM '' @ s) =
     prepend [TWord ''SELECT'', TWord ''COUNT'', TPunct CHR ''('', TOp ''*'', TPunct CHR '')'',
       TWord ''FROM'', TPunct CHR ''('', TWord ''SELECT'', TNumber ''1'', TWord ''FROM''] (lex s)"
  "lex (''SELECT '' @ s) = prepend [TWord ''SELECT''] (lex s)"
  "lex ('' FROM '' @ s) = prepend [TWord ''FROM''] (lex s)"
  "lex ('') AS t'') = Some [TPunct CHR '')'', TWord ''AS'', TWord ''t'']"
  by (simp_all add: lex_Cons char_classes is_punct_def is_op_def op_run_ok_def)

end
