(* ===== verification/Wire.thy ===== *)
theory Wire
  imports Postgres_Table Rust_Parse
begin

text \<open>
  The values of the wire protocol in \<open>src/server.rs\<close>: PostgreSQL types, errors, and the decoding
  of bound parameters into scalars. The binary decoders of \<open>postgres_types\<close> (\<open>from_sql\<close>) and
  chrono's parsers of dates and times are parameters, gathered in the record \<open>decoders\<close>; a
  decoded date is its days and a decoded time its nanoseconds since the epoch.
\<close>

datatype pg_type =
    T_UNKNOWN | T_INT2 | T_INT4 | T_INT8 | T_FLOAT4 | T_FLOAT8 | T_TEXT | T_VARCHAR | T_BPCHAR
  | T_BOOL | T_DATE | T_TIMESTAMP | T_BYTEA | T_OTHER nat

datatype decode_reason =
    NotUtf8 | NotValid string pg_type | BadBool | BadDate string | BadTimestamp string
  | TimestampRange | BadHex | BadBinary string

datatype user_message =
    EngineError igloo_error
  | UnsupportedColumn data_type
  | UnhandledColumn data_type
  | DateOutOfRange
  | ParamCount nat string nat
  | CannotDecode nat decode_reason

text \<open>A \<open>PgWireError\<close>: a user error with its severity, code and message, or an error of the
  wire library itself.\<close>

datatype pgwire_error = UserError string string user_message | EncodeError string

definition user_error :: "user_message \<Rightarrow> pgwire_error" where
  "user_error m = UserError ''ERROR'' ''42000'' m"

text \<open>Positions are reported counting from one.\<close>

definition param_decode_error :: "nat \<Rightarrow> decode_reason \<Rightarrow> pgwire_error" where
  "param_decode_error idx reason = user_error (CannotDecode (idx + 1) reason)"

record decoders =
  from_sql :: "pg_type \<Rightarrow> string \<Rightarrow> string + rust_value"
  parse_date :: "string \<Rightarrow> string \<Rightarrow> string + int"
  parse_datetime :: "string \<Rightarrow> string \<Rightarrow> string + int"
  parse_rfc3339 :: "string \<Rightarrow> string + int"

subsection \<open>Type mappings\<close>

definition map_arrow_type :: "data_type \<Rightarrow> pgwire_error + pg_type" where
  "map_arrow_type dt =
     (case dt of
        Int16 \<Rightarrow> Inr T_INT2
      | Int32 \<Rightarrow> Inr T_INT4
      | Int64 \<Rightarrow> Inr T_INT8
      | Float32 \<Rightarrow> Inr T_FLOAT4
      | Float64 \<Rightarrow> Inr T_FLOAT8
      | Utf8 \<Rightarrow> Inr T_VARCHAR
      | Boolean \<Rightarrow> Inr T_BOOL
      | Date32 \<Rightarrow> Inr T_DATE
      | Timestamp Nanosecond tz \<Rightarrow> Inr T_TIMESTAMP
      | other \<Rightarrow> Inl (user_error (UnsupportedColumn other)))"

definition arrow_to_pg_type :: "data_type \<Rightarrow> pg_type option" where
  "arrow_to_pg_type dt =
     (case dt of Binary \<Rightarrow> Some T_BYTEA
      | other \<Rightarrow> (case map_arrow_type other of Inr t \<Rightarrow> Some t | Inl e \<Rightarrow> None))"

definition declared_to_arrow :: "pg_type \<Rightarrow> data_type option" where
  "declared_to_arrow ty =
     (case ty of
        T_INT2 \<Rightarrow> Some Int16
      | T_INT4 \<Rightarrow> Some Int32
      | T_INT8 \<Rightarrow> Some Int64
      | T_FLOAT4 \<Rightarrow> Some Float32
      | T_FLOAT8 \<Rightarrow> Some Float64
      | T_TEXT \<Rightarrow> Some Utf8
      | T_VARCHAR \<Rightarrow> Some Utf8
      | T_BPCHAR \<Rightarrow> Some Utf8
      | T_BOOL \<Rightarrow> Some Boolean
      | T_DATE \<Rightarrow> Some Date32
      | T_TIMESTAMP \<Rightarrow> Some (Timestamp Nanosecond None)
      | T_BYTEA \<Rightarrow> Some Binary
      | _ \<Rightarrow> None)"

definition describe_parameters :: "pg_type list \<Rightarrow> data_type option list \<Rightarrow> pg_type list" where
  "describe_parameters declared inferred =
     map (\<lambda>i. if i < length declared \<and> declared ! i \<noteq> T_UNKNOWN then declared ! i
              else (case (if i < length inferred then inferred ! i else None) of
                      Some dt \<Rightarrow> (case arrow_to_pg_type dt of Some t \<Rightarrow> t | None \<Rightarrow> T_UNKNOWN)
                    | None \<Rightarrow> T_UNKNOWN))
       [0..<max (length declared) (length inferred)]"

subsection \<open>Text spellings\<close>

definition parse_bool_text :: "string \<Rightarrow> bool option" where
  "parse_bool_text s =
     (let t = to_ascii_lowercase (trim s)
      in if t \<in> {''true'', ''t'', ''yes'', ''on'', ''1''} then Some True
         else if t \<in> {''false'', ''f'', ''no'', ''off'', ''0''} then Some False
         else None)"

definition timestamp_formats :: "string list" where
  "timestamp_formats =
     [''%Y-%m-%d %H:%M:%S%.f'', ''%Y-%m-%dT%H:%M:%S%.f'', ''%Y-%m-%d %H:%M'', ''%Y-%m-%dT%H:%M'', ''%Y-%m-%d'']"

definition day_nanos :: int where
  "day_nanos = 86400 * 1000000000"

fun try_formats :: "decoders \<Rightarrow> string \<Rightarrow> string list \<Rightarrow> int option" where
  "try_formats dec s [] = None"
| "try_formats dec s (fmt # fmts) =
     (case parse_datetime dec fmt s of
        Inr ts \<Rightarrow> Some ts
      | Inl e \<Rightarrow>
          (case parse_date dec fmt s of
             Inr days \<Rightarrow> Some (days * day_nanos)
           | Inl e' \<Rightarrow> try_formats dec s fmts))"

definition parse_timestamp_text :: "decoders \<Rightarrow> string \<Rightarrow> int option" where
  "parse_timestamp_text dec s =
     (let s = trim s
      in case try_formats dec s timestamp_formats of
           Some ts \<Rightarrow> Some ts
         | None \<Rightarrow> (case parse_rfc3339 dec s of Inr ts \<Rightarrow> Some ts | Inl e \<Rightarrow> None))"

text \<open>\<open>u8::from_str_radix(_, 16)\<close> on a two-byte piece: two hexadecimal digits, or a plus sign
  and one. A piece that splits a character contains a byte that is not ASCII; slicing it and
  parsing it both give \<open>None\<close>.\<close>

definition hex_digit :: "char \<Rightarrow> nat option" where
  "hex_digit c =
     (if is_ascii_digit c then Some (code c - 48)
      else if 97 \<le> code c \<and> code c \<le> 102 then Some (code c - 87)
      else if 65 \<le> code c \<and> code c \<le> 70 then Some (code c - 55)
      else None)"

definition hex_byte :: "char \<Rightarrow> char \<Rightarrow> char option" where
  "hex_byte a b =
     (if a = CHR ''+'' then map_option char_of (hex_digit b)
      else (case (hex_digit a, hex_digit b) of
              (Some x, Some y) \<Rightarrow> Some (char_of (16 * x + y)) | _ \<Rightarrow> None))"

fun pairs :: "string \<Rightarrow> (char \<times> char) list" where
  "pairs (a # b # s) = (a, b) # pairs s"
| "pairs _ = []"

definition parse_bytea_hex :: "string \<Rightarrow> string option" where
  "parse_bytea_hex s =
     (let hex = (case strip_prefix [CHR 0x5C, CHR ''x''] (trim s) of Some h \<Rightarrow> h | None \<Rightarrow> trim s)
      in if length hex mod 2 \<noteq> 0 then None
         else collect_option (\<lambda>(a, b). hex_byte a b) (pairs hex))"

subsection \<open>Parameters\<close>

definition null_scalar :: "data_type option \<Rightarrow> scalar" where
  "null_scalar expected =
     (case expected of
        Some Int16 \<Rightarrow> SInt16 None
      | Some Int32 \<Rightarrow> SInt32 None
      | Some Int64 \<Rightarrow> SInt64 None
      | Some Float32 \<Rightarrow> SFloat32 None
      | Some Float64 \<Rightarrow> SFloat64 None
      | Some Boolean \<Rightarrow> SBoolean None
      | Some Date32 \<Rightarrow> SDate32 None
      | Some (Timestamp Nanosecond tz) \<Rightarrow> STimestampNanosecond None None
      | Some Binary \<Rightarrow> SBinary None
      | _ \<Rightarrow> SUtf8 None)"

text \<open>\<open>std::str::from_utf8(raw).map_err(...)\<close>.\<close>

definition utf8_param :: "nat \<Rightarrow> string \<Rightarrow> pgwire_error + string" where
  "utf8_param idx raw = ok_or (param_decode_error idx NotUtf8) (from_utf8 raw)"

text \<open>\<open>scalar_from\<close>: \<open>parse_text\<close> and \<open>to_scalar\<close> are the closures of its callers; \<open>of_value\<close>
  takes the decoded Rust value apart and answers \<open>None\<close> for a value of another Rust type, which
  the type of the decoder excludes.\<close>

definition binary_param ::
  "decoders \<Rightarrow> nat \<Rightarrow> pg_type \<Rightarrow> (rust_value \<Rightarrow> 'a option) \<Rightarrow> string \<Rightarrow> pgwire_error + 'a" where
  "binary_param dec idx ty of_value raw =
     (case from_sql dec ty raw of
        Inl e \<Rightarrow> Inl (param_decode_error idx (BadBinary e))
      | Inr v \<Rightarrow> ok_or (param_decode_error idx (BadBinary [])) (of_value v))"

definition scalar_from ::
  "decoders \<Rightarrow> string \<Rightarrow> bool \<Rightarrow> pg_type \<Rightarrow> (string \<Rightarrow> 'a option) \<Rightarrow> (rust_value \<Rightarrow> 'a option) \<Rightarrow>
   ('a option \<Rightarrow> scalar) \<Rightarrow> nat \<Rightarrow> pgwire_error + scalar" where
  "scalar_from dec raw is_text binary_ty parse_text of_value to_scalar idx =
     (if is_text
      then and_then (utf8_param idx raw) (\<lambda>s.
           and_then (ok_or (param_decode_error idx (NotValid s binary_ty)) (parse_text s)) (\<lambda>v.
           Inr (to_scalar (Some v))))
      else and_then (binary_param dec idx binary_ty of_value raw) (\<lambda>v. Inr (to_scalar (Some v))))"

fun int_of_value :: "rust_value \<Rightarrow> int option" where
  "int_of_value (V_int i) = Some i" | "int_of_value _ = None"

fun f64_of_value :: "rust_value \<Rightarrow> f64 option" where
  "f64_of_value (V_f64 f) = Some f" | "f64_of_value _ = None"

fun f32_of_value :: "rust_value \<Rightarrow> f32 option" where
  "f32_of_value (V_f32 f) = Some f" | "f32_of_value _ = None"

fun bool_of_value :: "rust_value \<Rightarrow> bool option" where
  "bool_of_value (V_bool b) = Some b" | "bool_of_value _ = None"

fun days_of_value :: "rust_value \<Rightarrow> int option" where
  "days_of_value (V_days d) = Some d" | "days_of_value _ = None"

fun nanos_of_value :: "rust_value \<Rightarrow> int option" where
  "nanos_of_value (V_nanos n) = Some n" | "nanos_of_value _ = None"

fun bytes_of_value :: "rust_value \<Rightarrow> string option" where
  "bytes_of_value (V_bytes b) = Some b" | "bytes_of_value _ = None"

definition decode_scalar_value ::
  "decoders \<Rightarrow> string \<Rightarrow> bool \<Rightarrow> data_type option \<Rightarrow> nat \<Rightarrow> pgwire_error + scalar" where
  "decode_scalar_value dec raw is_text expected idx =
     (case expected of
        Some Int64 \<Rightarrow> scalar_from dec raw is_text T_INT8 (parse_sint 64) int_of_value SInt64 idx
      | Some Int32 \<Rightarrow> scalar_from dec raw is_text T_INT4 (parse_sint 32) int_of_value SInt32 idx
      | Some Int16 \<Rightarrow> scalar_from dec raw is_text T_INT2 (parse_sint 16) int_of_value SInt16 idx
      | Some Float64 \<Rightarrow> scalar_from dec raw is_text T_FLOAT8 parse_f64 f64_of_value SFloat64 idx
      | Some Float32 \<Rightarrow> scalar_from dec raw is_text T_FLOAT4 parse_f32 f32_of_value SFloat32 idx
      | Some Boolean \<Rightarrow>
          if is_text
          then and_then (utf8_param idx raw) (\<lambda>s.
               and_then (ok_or (param_decode_error idx BadBool) (parse_bool_text s)) (\<lambda>b.
               Inr (SBoolean (Some b))))
          else and_then (binary_param dec idx T_BOOL bool_of_value raw) (\<lambda>b. Inr (SBoolean (Some b)))
      | Some Date32 \<Rightarrow>
          and_then
            (if is_text
             then and_then (utf8_param idx raw) (\<lambda>s.
                  map_err (\<lambda>e. param_decode_error idx (BadDate e)) (parse_date dec ''%Y-%m-%d'' s))
             else binary_param dec idx T_DATE days_of_value raw)
            (\<lambda>days. Inr (SDate32 (Some days)))
      | Some (Timestamp Nanosecond tz) \<Rightarrow>
          and_then
            (if is_text
             then and_then (utf8_param idx raw) (\<lambda>s.
                  ok_or (param_decode_error idx (BadTimestamp s)) (parse_timestamp_text dec s))
             else binary_param dec idx T_TIMESTAMP nanos_of_value raw)
            (\<lambda>ts. and_then (ok_or (param_decode_error idx TimestampRange) (timestamp_nanos_opt ts))
                    (\<lambda>nanos. Inr (STimestampNanosecond (Some nanos) None)))
      | Some Binary \<Rightarrow>
          and_then
            (if is_text
             then and_then (utf8_param idx raw) (\<lambda>s.
                  ok_or (param_decode_error idx BadHex) (parse_bytea_hex s))
             else binary_param dec idx T_BYTEA bytes_of_value raw)
            (\<lambda>bytes. Inr (SBinary (Some bytes)))
      | _ \<Rightarrow> and_then (utf8_param idx raw) (\<lambda>s. Inr (SUtf8 (Some s))))"

text \<open>A portal: its name, its statement with the statement's id and declared parameter types, the
  bound values (\<open>None\<close> is NULL) and the format tests of parameters and result columns, by
  position: \<open>True\<close> is text.\<close>

record portal =
  p_name :: string
  p_statement_id :: string
  p_sql :: string
  p_parameter_types :: "pg_type list"
  p_parameters :: "string option list"
  p_parameter_is_text :: "nat \<Rightarrow> bool"
  p_result_is_text :: "nat \<Rightarrow> bool"

definition decode_portal_param ::
  "decoders \<Rightarrow> portal \<Rightarrow> nat \<Rightarrow> data_type option \<Rightarrow> pgwire_error + scalar" where
  "decode_portal_param dec p idx expected =
     (if idx < length (p_parameters p)
      then (case p_parameters p ! idx of
              None \<Rightarrow> Inr (null_scalar expected)
            | Some raw \<Rightarrow> decode_scalar_value dec raw (p_parameter_is_text p idx) expected idx)
      else Inr (null_scalar expected))"

definition param_type :: "portal \<Rightarrow> data_type option list \<Rightarrow> nat \<Rightarrow> data_type option" where
  "param_type p expected idx =
     (case (if idx < length expected then expected ! idx else None) of
        Some dt \<Rightarrow> Some dt
      | None \<Rightarrow>
          if idx < length (p_parameter_types p) \<and> p_parameter_types p ! idx \<noteq> T_UNKNOWN
          then declared_to_arrow (p_parameter_types p ! idx) else None)"

definition decode_portal_params ::
  "decoders \<Rightarrow> portal \<Rightarrow> data_type option list \<Rightarrow> pgwire_error + scalar list" where
  "decode_portal_params dec p expected =
     (let count = length (p_parameters p)
      in if count \<noteq> length expected
         then Inl (user_error (ParamCount count (p_statement_id p) (length expected)))
         else collect_result (\<lambda>idx. decode_portal_param dec p idx (param_type p expected idx)) [0..<count])"

end
