(* ===== verification/Wire_Spec.thy ===== *)
theory Wire_Spec
  imports Wire
begin

text \<open>
  What the parameter decoding of \<open>src/server.rs\<close> guarantees: the decoded scalars have the
  planned types and keep NULLs, every failure is a user error that names the first undecodable
  position, integers and byte strings survive their text format, and the two type mappings are
  inverse to each other.
\<close>

subsection \<open>Decoded types\<close>

definition decoded_type :: "data_type option \<Rightarrow> data_type" where
  "decoded_type expected =
     (case expected of
        Some (Timestamp Nanosecond tz) \<Rightarrow> Timestamp Nanosecond None
      | Some dt \<Rightarrow>
          if dt \<in> {Int16, Int32, Int64, Float32, Float64, Boolean, Date32, Binary} then dt else Utf8
      | None \<Rightarrow> Utf8)"

definition is_null_scalar :: "scalar \<Rightarrow> bool" where
  "is_null_scalar v \<longleftrightarrow>
     v \<in> {SBoolean None, SInt16 None, SInt32 None, SInt64 None, SFloat32 None, SFloat64 None,
           SUtf8 None, SBinary None, SDate32 None, STimestampNanosecond None None}"

lemma scalar_from_Inr:
  "scalar_from dec raw txt ty parse of_value to_scalar idx = Inr v \<Longrightarrow> \<exists>x. v = to_scalar (Some x)"
  by (auto simp: scalar_from_def err_case split: if_splits)

lemma decode_scalar_value_typed:
  "decode_scalar_value dec raw txt expected idx = Inr v \<Longrightarrow>
   scalar_type v = decoded_type expected \<and> \<not> is_null_scalar v"
  by (auto simp: decode_scalar_value_def decoded_type_def is_null_scalar_def err_case
      dest!: scalar_from_Inr
      split: option.splits data_type.splits time_unit.splits if_splits)

lemma null_scalar_typed:
  "scalar_type (null_scalar expected) = decoded_type expected \<and> is_null_scalar (null_scalar expected)"
  by (auto simp: null_scalar_def decoded_type_def is_null_scalar_def
      split: option.splits data_type.splits time_unit.splits)

lemma decode_portal_param_typed:
  "idx < length (p_parameters p) \<Longrightarrow> decode_portal_param dec p idx expected = Inr v \<Longrightarrow>
   scalar_type v = decoded_type expected \<and> (is_null_scalar v \<longleftrightarrow> p_parameters p ! idx = None)"
  using null_scalar_typed [of expected]
  by (auto simp: decode_portal_param_def dest: decode_scalar_value_typed split: option.splits)

subsection \<open>Errors\<close>

text \<open>The error of \<open>collect\<close> is that of the first element that fails.\<close>

lemma collect_result_Inl:
  "collect_result f xs = Inl e \<longleftrightarrow>
     (\<exists>i < length xs. f (xs ! i) = Inl e \<and> (\<forall>j < i. \<exists>y. f (xs ! j) = Inr y))"
proof (induction xs)
  case (Cons x xs)
  show ?case
  proof (cases "f x")
    case (Inl e')
    then show ?thesis by (force simp: nth_Cons' dest: spec [where x = 0])
  next
    case (Inr y)
    then have "collect_result f (x # xs) = Inl e \<longleftrightarrow> collect_result f xs = Inl e"
      by (simp add: err_case)
    with Inr Cons.IH show ?thesis
      by (simp add: Ex_less_Suc2 All_less_Suc2)
  qed
qed simp

lemma scalar_from_Inl:
  "scalar_from dec raw txt ty parse of_value to_scalar idx = Inl e \<Longrightarrow>
   \<exists>reason. e = param_decode_error idx reason"
  by (auto simp: scalar_from_def utf8_param_def binary_param_def err_case split: if_splits sum.splits)

lemma decode_scalar_value_Inl:
  "decode_scalar_value dec raw txt expected idx = Inl e \<Longrightarrow>
   \<exists>reason. e = param_decode_error idx reason"
  by (auto simp: decode_scalar_value_def utf8_param_def binary_param_def err_case
      dest!: scalar_from_Inl
      split: option.splits data_type.splits time_unit.splits if_splits sum.splits)

lemma decode_portal_param_Inl:
  "decode_portal_param dec p idx expected = Inl e \<Longrightarrow>
   (\<exists>reason. e = param_decode_error idx reason) \<and> idx < length (p_parameters p) \<and>
   p_parameters p ! idx \<noteq> None"
  by (auto simp: decode_portal_param_def dest: decode_scalar_value_Inl split: option.splits if_splits)

subsection \<open>Hexadecimal text\<close>

text \<open>PostgreSQL's output format for \<open>bytea\<close>: two lower-case hexadecimal digits per byte.\<close>

definition hex_char :: "nat \<Rightarrow> char" where
  "hex_char n = char_of (if n < 10 then 48 + n else 87 + n)"

definition hex_pair :: "char \<Rightarrow> string" where
  "hex_pair b = [hex_char (code b div 16), hex_char (code b mod 16)]"

definition bytea_text :: "string \<Rightarrow> string" where
  "bytea_text bs = concat (map hex_pair bs)"

lemma code_hex_char [simp]: "n < 16 \<Longrightarrow> code (hex_char n) = (if n < 10 then 48 + n else 87 + n)"
  by (simp add: hex_char_def)

lemma hex_char_neq:
  assumes "n < 16"
  shows "hex_char n \<noteq> CHR ''+''" and "hex_char n \<noteq> CHR 0x5C"
proof -
  have "code (hex_char n) \<noteq> code CHR ''+''" "code (hex_char n) \<noteq> code CHR 0x5C"
    using assms by simp_all
  then show "hex_char n \<noteq> CHR ''+''" "hex_char n \<noteq> CHR 0x5C" by auto
qed

lemma hex_digit_hex_char [simp]: "n < 16 \<Longrightarrow> hex_digit (hex_char n) = Some n"
  by (simp add: hex_digit_def is_ascii_digit_def)

lemma hex_nibbles: "code b div 16 < 16" "code b mod 16 < 16"
  using nat_of_char_less_256 [of b] by (simp_all add: less_mult_imp_div_less)

lemma hex_byte_hex_pair [simp]:
  "hex_byte (hex_char (code b div 16)) (hex_char (code b mod 16)) = Some b"
proof -
  have "hex_char (code b div 16) \<noteq> CHR ''+''"
    using hex_nibbles(1) by (rule hex_char_neq)
  then show ?thesis using hex_nibbles [of b] by (simp add: hex_byte_def)
qed

lemma pairs_bytea_text: "pairs (bytea_text bs) = map (\<lambda>b. (hex_char (code b div 16), hex_char (code b mod 16))) bs"
  by (induction bs) (simp_all add: bytea_text_def hex_pair_def)

lemma length_bytea_text [simp]: "length (bytea_text bs) = 2 * length bs"
  by (induction bs) (simp_all add: bytea_text_def hex_pair_def)

lemma hex_char_visible: "n < 16 \<Longrightarrow> is_visible (hex_char n)"
  by (simp add: is_visible_def)

lemma bytea_text_visible: "list_all is_visible (bytea_text bs)"
  using hex_nibbles by (induction bs) (simp_all add: bytea_text_def hex_pair_def hex_char_visible)

lemma bytea_text_hd: "bytea_text bs = c # cs \<Longrightarrow> c \<noteq> CHR 0x5C"
  using hex_char_neq(2) [OF hex_nibbles(1)]
  by (cases bs) (auto simp: bytea_text_def hex_pair_def)

definition bytea_prefix :: string where
  "bytea_prefix = [CHR 0x5C, CHR ''x'']"

lemma collect_bytea_text: "collect_option (\<lambda>(a, b). hex_byte a b) (pairs (bytea_text bs)) = Some bs"
  by (simp add: pairs_bytea_text err_case list_all2_map1 list.rel_refl)

lemma parse_bytea_text:
  "parse_bytea_hex (bytea_prefix @ bytea_text bs) = Some bs"
  "parse_bytea_hex (bytea_text bs) = Some bs"
proof -
  have t: "trim (bytea_text bs) = bytea_text bs" and
    tp: "trim (bytea_prefix @ bytea_text bs) = bytea_prefix @ bytea_text bs"
    using bytea_text_visible [of bs]
    by (simp_all add: trim_visible is_visible_def bytea_prefix_def)
  have "strip_prefix bytea_prefix (bytea_text bs) = None"
    using bytea_text_hd [of bs] by (cases "bytea_text bs") (auto simp: bytea_prefix_def)
  then show "parse_bytea_hex (bytea_text bs) = Some bs"
    by (simp add: parse_bytea_hex_def t collect_bytea_text bytea_prefix_def)
  have "strip_prefix [CHR 0x5C, CHR ''x''] (bytea_prefix @ bytea_text bs) = Some (bytea_text bs)"
    by (simp add: bytea_prefix_def)
  then show "parse_bytea_hex (bytea_prefix @ bytea_text bs) = Some bs"
    by (simp only: parse_bytea_hex_def tp collect_bytea_text Let_def option.case) simp
qed

lemma bytea_text_valid: "valid_utf8 (bytea_text bs)" "valid_utf8 (bytea_prefix @ bytea_text bs)"
  using bytea_text_visible [of bs] by (simp_all add: trim_visible is_visible_def bytea_prefix_def)

text \<open>A sign is accepted inside a pair: \<open>u8::from_str_radix\<close> reads \<open>+f\<close> as 15.\<close>

lemma parse_bytea_sign: "parse_bytea_hex (bytea_prefix @ ''+f'') = Some [CHR 0x0F]"
  by code_simp

subsection \<open>Properties\<close>

text \<open>For the witnesses: the big-endian integer decoders of \<open>postgres_types\<close>, and a portal with
  an integer, a NULL and a text parameter.\<close>

definition be_int :: "string \<Rightarrow> int" where
  "be_int raw = (let n = foldl (\<lambda>n c. 256 * n + int (code c)) 0 raw; w = 256 ^ length raw
                 in if 2 * n \<ge> w then n - w else n)"

definition int_width :: "pg_type \<Rightarrow> nat option" where
  "int_width ty = (case ty of T_INT2 \<Rightarrow> Some 2 | T_INT4 \<Rightarrow> Some 4 | T_INT8 \<Rightarrow> Some 8 | _ \<Rightarrow> None)"

definition sample_decoders :: decoders where
  "sample_decoders =
     \<lparr>from_sql = (\<lambda>ty raw. if int_width ty = Some (length raw) then Inr (V_int (be_int raw))
                           else Inl ''invalid buffer size''),
      parse_date = (\<lambda>fmt s. Inl ''invalid''), parse_datetime = (\<lambda>fmt s. Inl ''invalid''),
      parse_rfc3339 = (\<lambda>s. Inl ''invalid'')\<rparr>"

definition sample_portal :: portal where
  "sample_portal =
     \<lparr>p_name = [], p_statement_id = ''s1'', p_sql = ''SELECT $1, $2, $3'', p_parameter_types = [T_INT4],
      p_parameters = [Some [CHR 0x00, CHR 0x00, CHR 0x00, CHR 0x2A], None, Some ''abc''],
      p_parameter_is_text = (\<lambda>i. i = 2), p_result_is_text = (\<lambda>_. True)\<rparr>"

text \<open>C23: When the parameters of a portal decode, there is one scalar per placeholder of the
  statement; each has exactly the type planned for its placeholder, the inferred type when there
  is one and else the declared one, with text for what has neither or cannot be decoded (and a
  timestamp with a time zone turned into one without); and a scalar is null exactly when the
  client sent NULL.\<close>

theorem decoded_parameters_typed:
  assumes "decode_portal_params dec p expected = Inr vs"
  shows "length vs = length expected \<and> length (p_parameters p) = length expected \<and>
    (\<forall>i < length vs. scalar_type (vs ! i) = decoded_type (param_type p expected i) \<and>
       (is_null_scalar (vs ! i) \<longleftrightarrow> p_parameters p ! i = None))"
proof -
  let ?n = "length (p_parameters p)"
  from assms have n: "?n = length expected"
    and c: "collect_result (\<lambda>i. decode_portal_param dec p i (param_type p expected i)) [0..<?n] = Inr vs"
    by (auto simp: decode_portal_params_def Let_def split: if_splits)
  have "length vs = ?n" using collect_result_length [OF c] by simp
  moreover have "scalar_type (vs ! i) = decoded_type (param_type p expected i) \<and>
      (is_null_scalar (vs ! i) \<longleftrightarrow> p_parameters p ! i = None)" if "i < ?n" for i
    using decode_portal_param_typed [OF that] collect_result_nth [OF c, of i] that by simp
  ultimately show ?thesis using n by simp
qed

lemma decoded_parameters_typed_witness:
  "decode_portal_params sample_decoders sample_portal [Some Int32, Some Binary, None] =
     Inr [SInt32 (Some 42), SBinary None, SUtf8 (Some ''abc'')] \<and>
   scalar_type (SInt32 (Some 42)) = decoded_type (param_type sample_portal [Some Int32, Some Binary, None] 0)"
proof
  show run: "decode_portal_params sample_decoders sample_portal [Some Int32, Some Binary, None] =
     Inr [SInt32 (Some 42), SBinary None, SUtf8 (Some ''abc'')]"
    by code_simp
  show "scalar_type (SInt32 (Some 42)) = decoded_type (param_type sample_portal [Some Int32, Some Binary, None] 0)"
    using decoded_parameters_typed [OF run] by (auto simp del: scalar_type.simps dest!: spec [where x = 0])
qed

text \<open>C24: When decoding fails, the client gets a user error of severity ERROR and code 42000: either
  the counts of bound values and placeholders differ, and the message states both, or the message
  names, counting from one, the first position whose value does not decode; that position holds a
  value, for a NULL always decodes.\<close>

theorem parameter_errors:
  assumes "decode_portal_params dec p expected = Inl e"
  shows "(length (p_parameters p) \<noteq> length expected \<and>
      e = UserError ''ERROR'' ''42000''
            (ParamCount (length (p_parameters p)) (p_statement_id p) (length expected))) \<or>
    (\<exists>i reason. i < length expected \<and> length (p_parameters p) = length expected \<and>
       e = UserError ''ERROR'' ''42000'' (CannotDecode (i + 1) reason) \<and> p_parameters p ! i \<noteq> None \<and>
       (\<forall>j < i. \<exists>v. decode_portal_param dec p j (param_type p expected j) = Inr v))"
proof (cases "length (p_parameters p) = length expected")
  case True
  with assms obtain i where i: "i < length expected"
    "decode_portal_param dec p i (param_type p expected i) = Inl e"
    "\<forall>j < i. \<exists>v. decode_portal_param dec p j (param_type p expected j) = Inr v"
    by (auto simp: decode_portal_params_def collect_result_Inl)
  then show ?thesis
    using True decode_portal_param_Inl [OF i(2)] by (auto simp: param_decode_error_def user_error_def)
next
  case False
  with assms show ?thesis by (simp add: decode_portal_params_def user_error_def)
qed

lemma parameter_errors_witness:
  "\<exists>i reason. i < 3 \<and> p_parameters sample_portal ! i \<noteq> None \<and>
     decode_portal_params sample_decoders sample_portal [Some Int32, Some Binary, Some Int64] =
       Inl (UserError ''ERROR'' ''42000'' (CannotDecode (i + 1) reason))"
proof -
  let ?e = "UserError ''ERROR'' ''42000'' (CannotDecode 3 (NotValid ''abc'' T_INT8))"
  have run: "decode_portal_params sample_decoders sample_portal [Some Int32, Some Binary, Some Int64] = Inl ?e"
    by code_simp
  have "length (p_parameters sample_portal) = 3" by code_simp
  with parameter_errors [OF run] run show ?thesis by auto
qed

text \<open>C25: An integer sent as text arrives unchanged exactly when it fits the width of its
  placeholder; at the boundary nothing wraps, the value is refused by name.\<close>

theorem integer_text_parameters:
  "decode_scalar_value dec (show_int i) True (Some Int64) idx =
     (if - (2 ^ 63) \<le> i \<and> i < 2 ^ 63 then Inr (SInt64 (Some i))
      else Inl (param_decode_error idx (NotValid (show_int i) T_INT8))) \<and>
   decode_scalar_value dec (show_int i) True (Some Int32) idx =
     (if - (2 ^ 31) \<le> i \<and> i < 2 ^ 31 then Inr (SInt32 (Some i))
      else Inl (param_decode_error idx (NotValid (show_int i) T_INT4))) \<and>
   decode_scalar_value dec (show_int i) True (Some Int16) idx =
     (if - (2 ^ 15) \<le> i \<and> i < 2 ^ 15 then Inr (SInt16 (Some i))
      else Inl (param_decode_error idx (NotValid (show_int i) T_INT2)))"
  using trim_visible(2) [OF show_int_visible [of i]]
  by (simp add: decode_scalar_value_def scalar_from_def utf8_param_def from_utf8_def parse_sint_show_int)

text \<open>A byte string sent in PostgreSQL's hexadecimal text format, with or without its prefix,
  arrives as those bytes.\<close>

lemma bytea_text_parameters:
  "decode_scalar_value dec (bytea_prefix @ bytea_text bs) True (Some Binary) idx = Inr (SBinary (Some bs)) \<and>
   decode_scalar_value dec (bytea_text bs) True (Some Binary) idx = Inr (SBinary (Some bs))"
  by (simp add: decode_scalar_value_def utf8_param_def from_utf8_def bytea_text_valid parse_bytea_text)

text \<open>C26: The two type mappings agree. A type reported for a placeholder, if the client declares it
  back, decodes to the type the inferred one decodes to; and a declared type that can be decoded
  is reported as itself, or as VARCHAR when it is one of the text types.\<close>

theorem wire_types_round_trip:
  "(\<forall>dt. arrow_to_pg_type dt = Some t \<longrightarrow> declared_to_arrow t = Some (decoded_type (Some dt))) \<and>
   (\<forall>dt. declared_to_arrow t = Some dt \<longrightarrow>
      decoded_type (Some dt) = dt \<and>
      arrow_to_pg_type dt = Some (if t \<in> {T_TEXT, T_BPCHAR} then T_VARCHAR else t))"
proof (intro conjI allI impI)
  fix dt
  show "arrow_to_pg_type dt = Some t \<Longrightarrow> declared_to_arrow t = Some (decoded_type (Some dt))"
    by (auto simp: arrow_to_pg_type_def map_arrow_type_def declared_to_arrow_def decoded_type_def
        split: data_type.splits time_unit.splits)
  show "declared_to_arrow t = Some dt \<Longrightarrow> decoded_type (Some dt) = dt"
    by (auto simp: declared_to_arrow_def decoded_type_def split: pg_type.splits)
  show "declared_to_arrow t = Some dt \<Longrightarrow>
      arrow_to_pg_type dt = Some (if t \<in> {T_TEXT, T_BPCHAR} then T_VARCHAR else t)"
    by (auto simp: arrow_to_pg_type_def map_arrow_type_def declared_to_arrow_def split: pg_type.splits)
qed

text \<open>A witness for both directions.\<close>

lemma wire_types_round_trip_witness:
  "arrow_to_pg_type (Timestamp Nanosecond (Some ''UTC'')) = Some T_TIMESTAMP \<and>
   declared_to_arrow T_TIMESTAMP = Some (decoded_type (Some (Timestamp Nanosecond (Some ''UTC''))))"
proof
  show a: "arrow_to_pg_type (Timestamp Nanosecond (Some ''UTC'')) = Some T_TIMESTAMP" by code_simp
  show "declared_to_arrow T_TIMESTAMP = Some (decoded_type (Some (Timestamp Nanosecond (Some ''UTC''))))"
    using wire_types_round_trip [of T_TIMESTAMP] a by blast
qed



end
