(* ===== verification/Catalog.thy ===== *)
theory Catalog
  imports Postgres_Table Hash_Map "HOL-Library.List_Lexorder" "HOL-Library.Char_ord"
    "HOL-Library.Product_Lexorder"
begin

text \<open>
  \<open>src/catalog.rs\<close>: PostgreSQL type names to Arrow types, grouping of the introspected columns
  into tables, their order, and the unqualified aliases. The rows \<open>information_schema\<close> answers
  with are a parameter of \<open>introspect_tables\<close>. Warnings are the values returned beside the
  result where the code logs them.
\<close>

record table_schema =
  t_schema :: string
  t_name :: string
  t_fields :: "field list"

record column_info =
  ci_schema :: string
  ci_table :: string
  ci_column :: string
  ci_data_type :: string
  ci_udt_name :: string
  ci_is_nullable :: bool

subsection \<open>Type mapping\<close>

definition udt_to_arrow :: "string \<Rightarrow> data_type option" where
  "udt_to_arrow udt =
     (if udt = ''int2'' then Some Int16
      else if udt = ''int4'' then Some Int32
      else if udt = ''int8'' then Some Int64
      else if udt = ''float4'' then Some Float32
      else if udt = ''float8'' then Some Float64
      else if udt = ''text'' \<or> udt = ''varchar'' \<or> udt = ''bpchar'' then Some Utf8
      else if udt = ''bool'' then Some Boolean
      else if udt = ''bytea'' then Some Binary
      else if udt = ''date'' then Some Date32
      else if udt = ''timestamp'' then Some (Timestamp Nanosecond None)
      else if udt = ''timestamptz'' then Some (Timestamp Nanosecond (Some ''+00:00''))
      else if udt = ''json'' \<or> udt = ''jsonb'' \<or> udt = ''uuid'' then Some Utf8
      else None)"

definition pg_type_to_arrow :: "string \<Rightarrow> string \<Rightarrow> data_type option" where
  "pg_type_to_arrow data_type udt_name =
     (let dt = to_ascii_lowercase data_type; udt = to_ascii_lowercase udt_name
      in if dt = ''smallint'' then Some Int16
         else if dt = ''integer'' then Some Int32
         else if dt = ''bigint'' then Some Int64
         else if dt = ''real'' then Some Float32
         else if dt = ''double precision'' then Some Float64
         else if dt = ''text'' \<or> dt = ''character varying'' \<or> dt = ''character'' then Some Utf8
         else if dt = ''boolean'' then Some Boolean
         else if dt = ''bytea'' then Some Binary
         else if dt = ''date'' then Some Date32
         else if dt = ''timestamp without time zone'' then Some (Timestamp Nanosecond None)
         else if dt = ''timestamp with time zone'' then Some (Timestamp Nanosecond (Some ''+00:00''))
         else if dt = ''json'' \<or> dt = ''jsonb'' \<or> dt = ''uuid'' then Some Utf8
         else udt_to_arrow udt)"

definition ambiguous_pg_type :: "string \<Rightarrow> string \<Rightarrow> string option" where
  "ambiguous_pg_type data_type udt_name =
     (let dt = to_ascii_lowercase data_type; udt = to_ascii_lowercase udt_name
      in if dt \<in> {''uuid'', ''json'', ''jsonb''} then Some dt
         else if udt \<in> {''uuid'', ''json'', ''jsonb''} then Some udt
         else None)"

subsection \<open>Grouping\<close>

definition column_field :: "column_info \<Rightarrow> data_type \<Rightarrow> field" where
  "column_field c dt =
     \<lparr>f_name = ci_column c, f_type = dt, f_nullable = ci_is_nullable c,
      f_meta = (case ambiguous_pg_type (ci_data_type c) (ci_udt_name c) of
                  Some kind \<Rightarrow> [pg_type_meta_key \<mapsto> kind] | None \<Rightarrow> Map.empty)\<rparr>"

definition same_table :: "table_schema \<Rightarrow> column_info \<Rightarrow> bool" where
  "same_table t c \<longleftrightarrow> t_schema t = ci_schema c \<and> t_name t = ci_table c"

text \<open>One iteration of the loop; \<open>tables\<close> is the \<open>Vec\<close>, last element last.\<close>

definition push_column :: "table_schema list \<Rightarrow> column_info \<Rightarrow> table_schema list" where
  "push_column tables c =
     (case pg_type_to_arrow (ci_data_type c) (ci_udt_name c) of
        Some dt \<Rightarrow>
          (if tables \<noteq> [] \<and> same_table (last tables) c
           then butlast tables @ [(last tables)\<lparr>t_fields := t_fields (last tables) @ [column_field c dt]\<rparr>]
           else tables @ [\<lparr>t_schema = ci_schema c, t_name = ci_table c, t_fields = [column_field c dt]\<rparr>])
      | None \<Rightarrow>
          (if \<not> (tables \<noteq> [] \<and> same_table (last tables) c)
           then tables @ [\<lparr>t_schema = ci_schema c, t_name = ci_table c, t_fields = []\<rparr>]
           else tables))"

definition group_columns_into_tables :: "column_info list \<Rightarrow> table_schema list" where
  "group_columns_into_tables columns = filter (\<lambda>t. t_fields t \<noteq> []) (foldl push_column [] columns)"

subsection \<open>Order\<close>

text \<open>Schemas that are not listed rank last, at \<open>usize::MAX\<close>. Strings are ordered bytewise.
  \<open>slice::sort_by\<close> is stable, as \<open>sort_key\<close> is.\<close>

definition schema_rank :: "string list \<Rightarrow> string \<Rightarrow> int" where
  "schema_rank schemas s =
     (case position (\<lambda>x. x = s) schemas of Some i \<Rightarrow> int i | None \<Rightarrow> 2 ^ 64 - 1)"

definition order_by_schema_priority :: "table_schema list \<Rightarrow> string list \<Rightarrow> table_schema list" where
  "order_by_schema_priority tables schemas =
     sort_key (\<lambda>t. (schema_rank schemas (t_schema t), t_name t)) tables"

definition warn_unmatched_allowlist :: "string list \<Rightarrow> table_schema list \<Rightarrow> string list" where
  "warn_unmatched_allowlist allowlist found =
     filter (\<lambda>wanted. \<not> list_ex (\<lambda>t. t_name t = wanted) found) allowlist"

text \<open>One row of the answer: schema, table, column, data type, udt name, nullability.\<close>

type_synonym info_row = "string \<times> string \<times> string \<times> string \<times> string \<times> string"

definition column_info_of :: "info_row \<Rightarrow> column_info" where
  "column_info_of = (\<lambda>(s, t, c, d, u, n).
     \<lparr>ci_schema = s, ci_table = t, ci_column = c, ci_data_type = d, ci_udt_name = u,
      ci_is_nullable = eq_ignore_ascii_case n ''YES''\<rparr>)"

text \<open>The result and the allowlist warnings.\<close>

definition introspect_tables ::
  "(string list \<Rightarrow> string list option \<Rightarrow> string + info_row list) \<Rightarrow> string list \<Rightarrow> string list option \<Rightarrow>
   igloo_error + table_schema list \<times> string list" where
  "introspect_tables query_info schemas tables =
     and_then (map_err EPostgres (query_info schemas tables)) (\<lambda>rows.
       let discovered = order_by_schema_priority
             (group_columns_into_tables (map column_info_of rows)) schemas
       in Inr (discovered,
               case tables of Some allowlist \<Rightarrow> warn_unmatched_allowlist allowlist discovered
               | None \<Rightarrow> []))"

subsection \<open>Aliases\<close>

record source_tables =
  s_source :: string
  s_tables :: "table_schema list"

record table_alias =
  a_alias :: string
  a_source :: string
  a_table :: table_schema

definition candidates :: "string \<Rightarrow> table_schema \<Rightarrow> string list" where
  "candidates source t =
     [t_name t,
      t_schema t @ ''__'' @ t_name t,
      source @ ''__'' @ t_schema t @ ''__'' @ t_name t]"

text \<open>The two nested loops over the sources and their tables, with the set \<open>used\<close> as a list.\<close>

fun alias_tables ::
  "string \<Rightarrow> table_schema list \<Rightarrow> string list \<Rightarrow> table_alias list \<Rightarrow> string list \<times> table_alias list" where
  "alias_tables source [] used out = (used, out)"
| "alias_tables source (t # ts) used out =
     (case find (\<lambda>c. c \<notin> set used) (candidates source t) of
        Some a \<Rightarrow>
          alias_tables source ts (hs_insert a used)
            (out @ [\<lparr>a_alias = a, a_source = source, a_table = t\<rparr>])
      | None \<Rightarrow> alias_tables source ts used out)"

fun alias_sources :: "source_tables list \<Rightarrow> string list \<Rightarrow> table_alias list \<Rightarrow> string list \<times> table_alias list" where
  "alias_sources [] used out = (used, out)"
| "alias_sources (s # ss) used out =
     (case alias_tables (s_source s) (s_tables s) used out of
        (used', out') \<Rightarrow> alias_sources ss used' out')"

definition resolve_aliases :: "source_tables list \<Rightarrow> string list \<Rightarrow> table_alias list" where
  "resolve_aliases sources reserved =
     snd (alias_sources sources (fold hs_insert reserved []) [])"

end
