(* ===== verification/Engine.thy ===== *)
theory Engine
  imports Catalog Config
begin

text \<open>
  \<open>src/datafusion_engine.rs\<close>: start-up registration and the three ways to run a statement.

  DataFusion is a parameter. The record \<open>session\<close> holds what the code calls on a
  \<open>SessionContext\<close> to run a statement, \<open>registry\<close> what it calls to register tables and
  catalogs; the session's state is a type variable, and an operation that may change it returns
  the new state. \<open>connect\<close> and \<open>info\<close> stand for the PostgreSQL connection and its answer to the
  introspection query. An \<open>expect\<close> that fails is the value \<open>Panicked\<close>.
\<close>

subsection \<open>Running a statement\<close>

record ('s, 'df) session =
  ctx_sql :: "'s \<Rightarrow> string \<Rightarrow> (string + 'df) \<times> 's"
  df_collect :: "'s \<Rightarrow> 'df \<Rightarrow> (string + batch list) \<times> 's"
  df_with_params :: "'df \<Rightarrow> scalar list \<Rightarrow> string + 'df"
  df_schema :: "'df \<Rightarrow> schema"
  parameter_names :: "'df \<Rightarrow> string + string list"
  parameter_types :: "'df \<Rightarrow> string + (string, data_type option) hash_map"

record query_description =
  d_schema :: schema
  d_param_types :: "data_type option list"

definition run_sql ::
  "('s, 'df) session \<Rightarrow> 's \<Rightarrow> string \<Rightarrow> ('df \<Rightarrow> string + 'df) \<Rightarrow> (igloo_error + batch list) \<times> 's" where
  "run_sql api s sql bind_params =
     (case ctx_sql api s sql of
        (Inl e, s) \<Rightarrow> (Inl (EDataFusion e), s)
      | (Inr df, s) \<Rightarrow>
          (case bind_params df of
             Inl e \<Rightarrow> (Inl (EDataFusion e), s)
           | Inr df \<Rightarrow> (case df_collect api s df of (r, s) \<Rightarrow> (map_err EDataFusion r, s))))"

definition engine_query ::
  "('s, 'df) session \<Rightarrow> 's \<Rightarrow> string \<Rightarrow> (igloo_error + batch list) \<times> 's" where
  "engine_query api s sql = run_sql api s sql Inr"

definition engine_query_with_params ::
  "('s, 'df) session \<Rightarrow> 's \<Rightarrow> string \<Rightarrow> scalar list \<Rightarrow> (igloo_error + batch list) \<times> 's" where
  "engine_query_with_params api s sql params =
     run_sql api s sql (\<lambda>df. if params = [] then Inr df else df_with_params api df params)"

text \<open>\<open>index_of\<close>: the number of a placeholder \<open>$n\<close>, read as a \<open>usize\<close>.\<close>

definition index_of :: "string \<Rightarrow> nat option" where
  "index_of i = (case strip_prefix ''$'' i of None \<Rightarrow> None | Some num \<Rightarrow> parse_u64 num)"

text \<open>The identifiers are a \<open>HashSet\<close> and the types a \<open>HashMap\<close>, in their iteration order.\<close>

definition placeholder_count :: "string list \<Rightarrow> nat" where
  "placeholder_count ids = fold max (List.map_filter index_of ids) 0"

definition put_type :: "nat \<Rightarrow> string \<times> data_type option \<Rightarrow> data_type option list \<Rightarrow> data_type option list" where
  "put_type count = (\<lambda>(i, dt) out.
     (case index_of i of
        Some idx \<Rightarrow> if 1 \<le> idx \<and> idx \<le> count then out[idx - 1 := dt] else out
      | None \<Rightarrow> out))"

definition ordered_param_types ::
  "string list \<Rightarrow> (string, data_type option) hash_map \<Rightarrow> data_type option list" where
  "ordered_param_types placeholder_ids param_types =
     (let count = placeholder_count (placeholder_ids @ map fst param_types)
      in fold (put_type count) param_types (replicate count None))"

definition describe_query ::
  "('s, 'df) session \<Rightarrow> 's \<Rightarrow> string \<Rightarrow> (igloo_error + query_description) \<times> 's" where
  "describe_query api s sql =
     (case ctx_sql api s sql of
        (Inl e, s) \<Rightarrow> (Inl (EDataFusion e), s)
      | (Inr df, s) \<Rightarrow>
          (and_then (map_err EDataFusion (parameter_names api df)) (\<lambda>ids.
           and_then (map_err EDataFusion (parameter_types api df)) (\<lambda>types.
           Inr \<lparr>d_schema = df_schema api df, d_param_types = ordered_param_types ids types\<rparr>)), s))"

subsection \<open>Registration\<close>

datatype start_error = Failed igloo_error | Panicked string

datatype ('cell, 'l) provider = PgProvider "'cell postgres_table" | ListingProvider 'l

record ('s, 'c, 'p) registry =
  ctx_register_table :: "'s \<Rightarrow> string \<Rightarrow> 'p \<Rightarrow> string + 's"
  ctx_register_catalog :: "'s \<Rightarrow> string \<Rightarrow> 'c \<Rightarrow> 's"
  new_catalog :: 'c
  cat_has_schema :: "'c \<Rightarrow> string \<Rightarrow> bool"
  cat_register_schema :: "'c \<Rightarrow> string \<Rightarrow> string + 'c"
  schema_register_table :: "'c \<Rightarrow> string \<Rightarrow> string \<Rightarrow> 'p \<Rightarrow> string + 'c"

definition iceberg_table :: string where "iceberg_table = ''iceberg''"
definition legacy_alias :: string where "legacy_alias = ''pg_table''"
definition legacy_source_table :: string where "legacy_source_table = ''my_pg_table''"

abbreviation df_try :: "string + 'a \<Rightarrow> start_error + 'a" where
  "df_try \<equiv> map_err (\<lambda>e. Failed (EDataFusion e))"

definition connect_source ::
  "(string \<Rightarrow> string + 'cell pg_client) \<Rightarrow> postgres_source \<Rightarrow> igloo_error + 'cell pg_client" where
  "connect_source pg_connect source = map_err EPostgres (pg_connect (expose (src_uri source)))"

definition table_provider :: "'cell pg_client \<Rightarrow> table_schema \<Rightarrow> bool \<Rightarrow> ('cell, 'l) provider" where
  "table_provider cl t pushdown =
     PgProvider (with_filter_pushdown (from_client cl (t_schema t) (t_name t) (t_fields t)) pushdown)"

definition schema_provider :: "('s, 'c, 'p) registry \<Rightarrow> 'c \<Rightarrow> string \<Rightarrow> start_error + 'c" where
  "schema_provider reg cat name =
     (if cat_has_schema reg cat name then Inr cat
      else and_then (df_try (cat_register_schema reg cat name)) (\<lambda>cat.
           if cat_has_schema reg cat name then Inr cat
           else Inl (Panicked ''schema registered on the line above'')))"

text \<open>The first loop: connect to each source and introspect it.\<close>

fun discover_sources ::
  "(string \<Rightarrow> string + 'cell pg_client) \<Rightarrow>
   ('cell pg_client \<Rightarrow> string list \<Rightarrow> string list option \<Rightarrow> string + info_row list) \<Rightarrow>
   postgres_source list \<Rightarrow> (string, 'cell pg_client) hash_map \<Rightarrow> source_tables list \<Rightarrow>
   start_error + (string, 'cell pg_client) hash_map \<times> source_tables list" where
  "discover_sources pg_connect info [] clients discovered = Inr (clients, discovered)"
| "discover_sources pg_connect info (source # sources) clients discovered =
     and_then (map_err Failed (connect_source pg_connect source)) (\<lambda>cl.
     and_then (map_err Failed (introspect_tables (info cl) (src_schemas source) (src_tables source)))
       (\<lambda>(tables, warned).
       discover_sources pg_connect info sources (hm_insert (src_name source) cl clients)
         (discovered @ [\<lparr>s_source = src_name source, s_tables = tables\<rparr>])))"

text \<open>The second loop registers each table in its schema and remembers its provider.\<close>

type_synonym table_key = "string \<times> string \<times> string"

fun register_tables ::
  "('s, 'c, ('cell, 'l) provider) registry \<Rightarrow> 'cell pg_client \<Rightarrow> bool \<Rightarrow> string \<Rightarrow> table_schema list \<Rightarrow>
   'c \<Rightarrow> (table_key, ('cell, 'l) provider) hash_map \<Rightarrow>
   start_error + 'c \<times> (table_key, ('cell, 'l) provider) hash_map" where
  "register_tables reg cl pushdown source [] cat providers = Inr (cat, providers)"
| "register_tables reg cl pushdown source (t # ts) cat providers =
     (let provider = table_provider cl t pushdown
      in and_then (schema_provider reg cat (t_schema t)) (\<lambda>cat.
         and_then (df_try (schema_register_table reg cat (t_schema t) (t_name t) provider)) (\<lambda>cat.
         register_tables reg cl pushdown source ts cat
           (hm_insert (source, t_schema t, t_name t) provider providers))))"

fun register_sources ::
  "('s, 'c, ('cell, 'l) provider) registry \<Rightarrow> bool \<Rightarrow> (string, 'cell pg_client) hash_map \<Rightarrow>
   source_tables list \<Rightarrow> 's \<Rightarrow> (table_key, ('cell, 'l) provider) hash_map \<Rightarrow>
   start_error + 's \<times> (table_key, ('cell, 'l) provider) hash_map" where
  "register_sources reg pushdown clients [] s providers = Inr (s, providers)"
| "register_sources reg pushdown clients (source # sources) s providers =
     and_then (ok_or (Panicked ''client registered above'') (hm_get clients (s_source source))) (\<lambda>cl.
     and_then (register_tables reg cl pushdown (s_source source) (s_tables source) (new_catalog reg) providers)
       (\<lambda>(cat, providers).
       register_sources reg pushdown clients sources
         (ctx_register_catalog reg s (s_source source) cat) providers))"

text \<open>The third loop; the flag is \<open>legacy_registered\<close>.\<close>

fun register_aliases ::
  "('s, 'c, 'p) registry \<Rightarrow> (table_key, 'p) hash_map \<Rightarrow> table_alias list \<Rightarrow> 's \<Rightarrow> bool \<Rightarrow> start_error + 's" where
  "register_aliases reg providers [] s legacy_registered = Inr s"
| "register_aliases reg providers (a # as) s legacy_registered =
     and_then (ok_or (Panicked ''provider built above'')
         (hm_get providers (a_source a, t_schema (a_table a), t_name (a_table a)))) (\<lambda>provider.
     and_then (df_try (ctx_register_table reg s (a_alias a) provider)) (\<lambda>s.
       if \<not> legacy_registered \<and> t_name (a_table a) = legacy_source_table
       then and_then (df_try (ctx_register_table reg s legacy_alias provider)) (\<lambda>s.
            register_aliases reg providers as s True)
       else register_aliases reg providers as s legacy_registered))"

definition register_postgres_sources ::
  "('s, 'c, ('cell, 'l) provider) registry \<Rightarrow> (string \<Rightarrow> string + 'cell pg_client) \<Rightarrow>
   ('cell pg_client \<Rightarrow> string list \<Rightarrow> string list option \<Rightarrow> string + info_row list) \<Rightarrow>
   's \<Rightarrow> postgres_source list \<Rightarrow> bool \<Rightarrow> start_error + 's" where
  "register_postgres_sources reg pg_connect info s sources pushdown =
     and_then (discover_sources pg_connect info sources [] []) (\<lambda>(clients, discovered).
     and_then (register_sources reg pushdown clients discovered s []) (\<lambda>(s, providers).
     register_aliases reg providers (resolve_aliases discovered [iceberg_table, legacy_alias]) s False))"

text \<open>The Parquet table: \<open>listing\<close> is the listing table over the parsed URL with a schema.\<close>

definition iceberg_schema :: schema where
  "iceberg_schema =
     [\<lparr>f_name = ''user_id'', f_type = Int64, f_nullable = False, f_meta = Map.empty\<rparr>,
      \<lparr>f_name = ''data'', f_type = Utf8, f_nullable = True, f_meta = Map.empty\<rparr>]"

definition register_iceberg_table ::
  "('s, 'c, ('cell, 'l) provider) registry \<Rightarrow> (string \<Rightarrow> string + 'u) \<Rightarrow> ('u \<Rightarrow> schema \<Rightarrow> string + 'l) \<Rightarrow>
   's \<Rightarrow> string \<Rightarrow> start_error + 's" where
  "register_iceberg_table reg parse_url listing s path =
     and_then (df_try (parse_url path)) (\<lambda>url.
     and_then (df_try (listing url iceberg_schema)) (\<lambda>table.
     df_try (ctx_register_table reg s iceberg_table (ListingProvider table))))"

definition new_with_pushdown ::
  "('s, 'c, ('cell, 'l) provider) registry \<Rightarrow> (string \<Rightarrow> string + 'u) \<Rightarrow> ('u \<Rightarrow> schema \<Rightarrow> string + 'l) \<Rightarrow>
   (string \<Rightarrow> string + 'cell pg_client) \<Rightarrow>
   ('cell pg_client \<Rightarrow> string list \<Rightarrow> string list option \<Rightarrow> string + info_row list) \<Rightarrow>
   's \<Rightarrow> string \<Rightarrow> postgres_source list \<Rightarrow> bool \<Rightarrow> start_error + 's" where
  "new_with_pushdown reg parse_url listing pg_connect info ctx path sources pushdown =
     and_then (register_iceberg_table reg parse_url listing ctx path) (\<lambda>s.
     register_postgres_sources reg pg_connect info s sources pushdown)"

definition engine_new ::
  "('s, 'c, ('cell, 'l) provider) registry \<Rightarrow> (string \<Rightarrow> string + 'u) \<Rightarrow> ('u \<Rightarrow> schema \<Rightarrow> string + 'l) \<Rightarrow>
   (string \<Rightarrow> string + 'cell pg_client) \<Rightarrow>
   ('cell pg_client \<Rightarrow> string list \<Rightarrow> string list option \<Rightarrow> string + info_row list) \<Rightarrow>
   's \<Rightarrow> string \<Rightarrow> postgres_source list \<Rightarrow> start_error + 's" where
  "engine_new reg parse_url listing pg_connect info ctx path sources =
     new_with_pushdown reg parse_url listing pg_connect info ctx path sources True"

end
