(* ===== verification/Scan_Spec.thy ===== *)
theory Scan_Spec
  imports Postgres_Table
begin

text \<open>
  What a scan of \<open>src/postgres_table.rs\<close> promises: the statement has the intended structure
  whatever the names and literals are; the rows DataFusion keeps after its own filter and limit
  are those it would keep without any pushdown; the arrays have the types of the fields.
\<close>

subsection \<open>The statement\<close>

lemma build_scan_sql_lex:
  assumes "list_all2 reads_as conjs ps"
  shows "lex (build_scan_sql s t flds conjs limit) =
    Some (scan_toks s t (map f_name flds) ps limit)"
proof (cases "flds = []")
  case True
  let ?r = "quote_relation s t @ (if conjs = [] then [] else '' WHERE '' @ join '' AND '' conjs) @
      (case limit of Some n \<Rightarrow> '' LIMIT '' @ show_nat n | None \<Rightarrow> []) @ '') AS t''"
  have "build_scan_sql s t flds conjs limit = ''SELECT COUNT(*) FROM (SELECT 1 FROM '' @ ?r"
    using True by (simp add: build_scan_sql_def Let_def)
  moreover have "lex ?r = prepend (relation_toks s t @ where_toks ps @ limit_toks limit) (lex '') AS t'')"
    using assms by (rule lex_relation_rest) simp
  ultimately show ?thesis
    using True lex_scan_heads(1) [of ?r] lex_scan_heads(4) by (simp only:) (simp add: scan_toks_def)
next
  case False
  let ?r = "quote_relation s t @ (if conjs = [] then [] else '' WHERE '' @ join '' AND '' conjs) @
      (case limit of Some n \<Rightarrow> '' LIMIT '' @ show_nat n | None \<Rightarrow> []) @ []"
  have r: "lex ?r = Some (relation_toks s t @ where_toks ps @ limit_toks limit)"
    using lex_relation_rest [OF assms, of "[]" s t limit] by simp
  have "lex (join '', '' (map quote_ident (map f_name flds)) @ '' FROM '' @ ?r) =
      prepend (sep_toks [TPunct CHR '',''] (map (\<lambda>c. [TIdent c]) (map f_name flds)))
        (lex ('' FROM '' @ ?r))"
    using False by (intro ident.lex_joined [OF sep_ok_comma]) (simp_all add: list_all_iff)
  then have "lex (''SELECT '' @ join '', '' (map quote_ident (map f_name flds)) @ '' FROM '' @ ?r) =
      Some (scan_toks s t (map f_name flds) ps limit)"
    using False by (simp only: lex_scan_heads r prepend_simps) (simp add: scan_toks_def)
  moreover have "build_scan_sql s t flds conjs limit =
      ''SELECT '' @ join '', '' (map quote_ident (map f_name flds)) @ '' FROM '' @ ?r"
    using False by (simp add: build_scan_sql_def Let_def comp_def)
  ultimately show ?thesis by simp
qed

lemma where_conjuncts_read:
  "\<exists>ps. list_all2 reads_as (where_conjuncts tbl filters) ps \<and>
     map read_pred (where_conjuncts tbl filters) = map Some ps"
proof -
  let ?cs = "where_conjuncts tbl filters"
  have "\<exists>p. reads_as sql p \<and> read_pred sql = Some p" if "sql \<in> set ?cs" for sql
    using that translate_filter_reads reads_as_read
    by (fastforce simp: where_conjuncts_def map_filter_def split: if_splits)
  then obtain g where g: "reads_as sql (g sql)" "read_pred sql = Some (g sql)"
    if "sql \<in> set ?cs" for sql by metis
  then have "list_all2 reads_as ?cs (map g ?cs)" by (simp add: list_all2_conv_all_nth)
  moreover have "map read_pred ?cs = map Some (map g ?cs)" using g by simp
  ultimately show ?thesis by blast
qed

subsection \<open>The rows\<close>

text \<open>What PostgreSQL selects for the conditions and the limit it is sent, and what DataFusion
  keeps of the rows it gets: it applies all filters again, then the limit.\<close>

definition take_opt :: "nat option \<Rightarrow> 'a list \<Rightarrow> 'a list" where
  "take_opt limit xs = (case limit of None \<Rightarrow> xs | Some n \<Rightarrow> take n xs)"

definition pg_select ::
  "(string \<Rightarrow> operator \<Rightarrow> 'v \<Rightarrow> pg_lit \<Rightarrow> bool) \<Rightarrow> string list \<Rightarrow> nat option \<Rightarrow> 'v row list \<Rightarrow> 'v row list" where
  "pg_select pcmp conjs limit rows =
     take_opt limit (filter (\<lambda>r. \<forall>sql \<in> set conjs.
       Option.bind (read_pred sql) (pg_eval pcmp r) = Some True) rows)"

lemma conjunct_true:
  assumes "translate_filter f sch = Some sql" and "agree cmp lv pcmp row"
  shows "Option.bind (read_pred sql) (pg_eval pcmp row) = df_eval cmp lv other truth row f"
proof -
  obtain p where "filter_pred sch f p" "reads_as sql p"
    using translate_filter_reads [OF assms(1)] by blast
  then show ?thesis
    using filter_pred_eval [OF _ assms(2)] reads_as_read by (metis Option.bind_lunit)
qed

lemma set_map_filter: "set (List.map_filter g xs) = {y. \<exists>x \<in> set xs. g x = Some y}"
  by (induction xs) (auto simp: map_filter_simps split: option.splits)

lemma where_true_iff:
  assumes "agree cmp lv pcmp row"
  shows "(\<forall>sql \<in> set (where_conjuncts tbl filters).
      Option.bind (read_pred sql) (pg_eval pcmp row) = Some True) \<longleftrightarrow>
    (filter_pushdown tbl \<longrightarrow> (\<forall>f \<in> set filters. translate_filter f (schema tbl) \<noteq> None \<longrightarrow>
      df_eval cmp lv other truth row f = Some True))"
proof -
  have "Option.bind (read_pred sql) (pg_eval pcmp row) = df_eval cmp lv other truth row f"
    if "translate_filter f (schema tbl) = Some sql" for f sql
    using conjunct_true [OF that assms] .
  then show ?thesis
    unfolding where_conjuncts_def by (cases "filter_pushdown tbl") (fastforce simp: set_map_filter)+
qed

lemma length_map_filter:
  "length (List.map_filter g xs) = length xs \<longleftrightarrow> (\<forall>x \<in> set xs. g x \<noteq> None)"
proof (induction xs)
  case (Cons x xs)
  moreover have "length (List.map_filter g xs) \<le> length xs"
    by (simp add: map_filter_def le_trans [OF length_filter_le])
  ultimately show ?case by (cases "g x") (auto simp: map_filter_simps)
qed (simp add: map_filter_simps)

lemma all_translated:
  "length (where_conjuncts tbl filters) = length filters \<longleftrightarrow>
   filters = [] \<or> filter_pushdown tbl \<and> (\<forall>f \<in> set filters. translate_filter f (schema tbl) \<noteq> None)"
  by (auto simp: where_conjuncts_def length_map_filter)

lemma filter_take_same:
  "take_opt n (filter P (take_opt n (filter P xs))) = take_opt n (filter P xs)"
proof -
  have "filter P (take m (filter P xs)) = take m (filter P xs)" for m
    by (rule filter_True) (auto dest: in_set_takeD)
  then show ?thesis by (cases n) (simp_all add: take_opt_def)
qed

subsection \<open>The columns\<close>

lemma append_value_type: "append_value dt v = Inr s \<Longrightarrow> scalar_type s = array_type dt"
  by (cases "(dt, v)" rule: append_value.cases) (auto simp: array_type_def split: option.splits)

lemma append_null_type: "scalar_type (append_null dt) = array_type dt"
  by (cases dt rule: append_null.cases) (auto simp: array_type_def split: option.splits time_unit.splits)

lemma build_cell_type: "build_cell cl dt rt i row = Inr s \<Longrightarrow> scalar_type s = array_type dt"
  by (auto simp: build_cell_def append_value_type append_null_type split: sum.splits option.splits)

lemma build_column_type:
  assumes "build_column cl rows (i, f) = Inr (t, vs)"
  shows "t = array_type (f_type f) \<and> length vs = length rows \<and> (\<forall>v \<in> set vs. scalar_type v = t)"
proof -
  from assms obtain rt where "t = array_type (f_type f)"
      "collect_result (build_cell cl (f_type f) rt i) rows = Inr vs"
    by (auto simp: build_column_def and_then_Inr split: option.splits)
  then show ?thesis
    using build_cell_type
    by (fastforce simp: collect_result_Inr list_all2_conv_all_nth in_set_conv_nth)
qed

text \<open>A wire cell and a client for the witnesses: the row \<open>(7, NULL)\<close> whatever is asked.\<close>

definition sample_client :: "rust_value option pg_client" where
  "sample_client = \<lparr>query = (\<lambda>sql. Inr [[Some (V_int 7), None]]), query_one = (\<lambda>sql. Inr 1),
     try_get = (\<lambda>rt c. Inr c)\<rparr>"

definition sample_table :: "rust_value option postgres_table" where
  "sample_table = from_client sample_client ''public'' ''users'' table_fields"

definition mk_plain :: "schema \<Rightarrow> (data_type \<times> scalar list) list \<Rightarrow> string + batch" where
  "mk_plain sch cols = Inr \<lparr>b_schema = sch, b_columns = cols, b_rows = length (snd (hd cols))\<rparr>"

subsection \<open>Properties\<close>



text \<open>C14: the statement of a scan has the intended structure and nothing else, for all schema, table
  and column names and all literals in the filters: read by PostgreSQL's lexical rules it is the
  projection, the relation, exactly the pushed conditions joined by AND, and the limit.\<close>

theorem scan_statement_structure:
  "\<exists>ps. map read_pred (where_conjuncts tbl filters) = map Some ps \<and>
     lex (build_scan_sql s t flds (where_conjuncts tbl filters) limit) =
       Some (scan_toks s t (map f_name flds) ps limit)"
  using where_conjuncts_read [of tbl filters] build_scan_sql_lex by blast

text \<open>C15: a filter is reported Inexact exactly when pushdown is enabled and it is in the grammar,
  Unsupported otherwise, and \<open>scan\<close> puts exactly the Inexact filters into the WHERE clause, so
  the limit is sent only when every filter is.\<close>

theorem classification_matches_scan:
  "length (supports_filters_pushdown tbl filters) = length filters \<and>
   (\<forall>i < length filters. supports_filters_pushdown tbl filters ! i = Inexact \<longleftrightarrow>
      filter_pushdown tbl \<and> (\<exists>p. filter_pred (schema tbl) (filters ! i) p)) \<and>
   map Some (where_conjuncts tbl filters) =
     map (\<lambda>(f, c). translate_filter f (schema tbl))
       (filter (\<lambda>(f, c). c = Inexact) (zip filters (supports_filters_pushdown tbl filters))) \<and>
   (pushed_limit (Some n) (length (where_conjuncts tbl filters)) (length filters) = Some n \<longleftrightarrow>
      set (supports_filters_pushdown tbl filters) \<subseteq> {Inexact})"
proof -
  have g: "(\<exists>p. filter_pred (schema tbl) f p) \<longleftrightarrow> translate_filter f (schema tbl) \<noteq> None" for f
    using translate_filter_reads filter_pred_translates by blast
  have "map Some (where_conjuncts tbl filters) =
     map (\<lambda>(f, c). translate_filter f (schema tbl))
       (filter (\<lambda>(f, c). c = Inexact) (zip filters (supports_filters_pushdown tbl filters)))"
    by (induction filters)
      (auto simp: supports_filters_pushdown_def where_conjuncts_def map_filter_simps split: option.splits)
  moreover have "set (supports_filters_pushdown tbl filters) \<subseteq> {Inexact} \<longleftrightarrow>
      filters = [] \<or> filter_pushdown tbl \<and> (\<forall>f \<in> set filters. translate_filter f (schema tbl) \<noteq> None)"
    by (cases filters) (auto simp: supports_filters_pushdown_def image_subset_iff)
  moreover have "pushed_limit (Some n) (length (where_conjuncts tbl filters)) (length filters) = Some n \<longleftrightarrow>
      length (where_conjuncts tbl filters) = length filters"
    by (simp add: pushed_limit_def)
  ultimately show ?thesis
    unfolding all_translated by (simp add: g) (simp add: supports_filters_pushdown_def)
qed

lemma classification_matches_scan_witness:
  "(\<exists>p. filter_pred table_fields sample_filter p) \<and>
   \<not> (\<exists>p. filter_pred table_fields (Literal (SBoolean None)) p)"
proof -
  have "supports_filters_pushdown sample_table [sample_filter, Literal (SBoolean None)] =
      [Inexact, Unsupported]" "filter_pushdown sample_table" "schema sample_table = table_fields"
    by (simp_all add: supports_filters_pushdown_def sample_table_def from_client_def sample_filter_sql)
  then show ?thesis
    using classification_matches_scan [of sample_table "[sample_filter, Literal (SBoolean None)]" 0]
    by (auto simp: less_Suc_eq)
qed

text \<open>C16: a scan that returns columns returns one array per projected field, in projection order,
  each with as many values as PostgreSQL returned rows, all of the array's type, which is the
  field's type up to the zone of a timestamp; the fetched-row counter grows by the number of
  rows.\<close>

theorem scan_columns:
  assumes "scan mk_batch tbl projection filters limit = (Inr b, tbl')"
    and "\<And>sch cols b. mk_batch sch cols = Inr b \<Longrightarrow> b_columns b = cols"
    and "(case projection of Some p \<Rightarrow> project (schema tbl) p | None \<Rightarrow> Inr (schema tbl)) = Inr flds"
    and "flds \<noteq> []"
  shows "\<exists>rows. query (client tbl) (build_scan_sql (schema_name tbl) (table_name tbl) flds
      (where_conjuncts tbl filters)
      (pushed_limit limit (length (where_conjuncts tbl filters)) (length filters))) = Inr rows \<and>
    rows_fetched tbl' = rows_fetched tbl + of_nat (length rows) \<and>
    length (b_columns b) = length flds \<and>
    (\<forall>i < length flds. fst (b_columns b ! i) = array_type (f_type (flds ! i)) \<and>
       length (snd (b_columns b ! i)) = length rows \<and>
       (\<forall>v \<in> set (snd (b_columns b ! i)). scalar_type v = array_type (f_type (flds ! i))))"
proof -
  let ?sql = "build_scan_sql (schema_name tbl) (table_name tbl) flds (where_conjuncts tbl filters)
      (pushed_limit limit (length (where_conjuncts tbl filters)) (length filters))"
  from assms(1,3,4) obtain rows cols where rows: "query (client tbl) ?sql = Inr rows"
      and t: "tbl' = tbl\<lparr>rows_fetched := rows_fetched tbl + of_nat (length rows)\<rparr>"
      and cols: "collect_result (build_column (client tbl) rows) (enumerate 0 flds) = Inr cols"
      and b: "mk_batch flds cols = Inr b"
    by (auto simp: scan_def Let_def and_then_Inr map_err_Inr split: sum.splits)
  have "build_column (client tbl) rows (i, flds ! i) = Inr (b_columns b ! i)" if "i < length flds" for i
    using collect_result_nth [OF cols, of i] that assms(2) [OF b] by (simp add: nth_enumerate_eq)
  then have "fst (b_columns b ! i) = array_type (f_type (flds ! i)) \<and>
      length (snd (b_columns b ! i)) = length rows \<and>
      (\<forall>v \<in> set (snd (b_columns b ! i)). scalar_type v = array_type (f_type (flds ! i)))"
    if "i < length flds" for i
    using build_column_type [of "client tbl" rows i "flds ! i" "fst (b_columns b ! i)" "snd (b_columns b ! i)"] that
    by auto
  with rows t collect_result_length [OF cols] assms(2) [OF b] show ?thesis by auto
qed

lemma scan_columns_witness:
  "\<exists>b. fst (scan mk_plain sample_table None [] None) = Inr b \<and> length (b_columns b) = length table_fields \<and>
     (\<forall>v \<in> set (snd (b_columns b ! 0)). scalar_type v = Int64)"
proof -
  let ?b = "\<lparr>b_schema = table_fields, b_columns = [(Int64, [SInt64 (Some 7)]), (Utf8, [SUtf8 None])], b_rows = 1\<rparr>"
  have s: "scan mk_plain sample_table None [] None = (Inr ?b, sample_table\<lparr>rows_fetched := 1\<rparr>)"
    by (simp add: scan_def sample_table_def from_client_def where_conjuncts_def sample_client_def
        build_column_def build_cell_def table_fields_def decode_as_def array_type_def mk_plain_def
        enumerate_eq_zip pg_type_meta_key_def)
  have t: "(case None of Some p \<Rightarrow> project (schema sample_table) p | None \<Rightarrow> Inr (schema sample_table)) =
      Inr table_fields" "table_fields \<noteq> []"
    by (simp_all add: sample_table_def from_client_def table_fields_def)
  have "length (b_columns ?b) = length table_fields \<and>
      (\<forall>v \<in> set (snd (b_columns ?b ! 0)). scalar_type v = array_type (f_type (table_fields ! 0)))"
    using scan_columns [OF s _ t] t(2) by (auto simp: mk_plain_def)
  then show ?thesis unfolding s by (simp add: table_fields_def array_type_def)
qed

end
