(* ===== verification/Catalog_Spec.thy ===== *)
theory Catalog_Spec
  imports Catalog Scan_Spec "HOL-Library.Sublist" "HOL-Library.Multiset"
begin

text \<open>
  What \<open>src/catalog.rs\<close> promises: grouping loses, repeats and reorders no readable column; the
  decoder of the table provider understands every introspected field; aliases are unambiguous and
  given by the documented order of candidates.
\<close>

subsection \<open>Grouping\<close>

definition table_key :: "column_info \<Rightarrow> string \<times> string" where
  "table_key c = (ci_schema c, ci_table c)"

definition readable :: "column_info \<Rightarrow> field option" where
  "readable c = map_option (column_field c) (pg_type_to_arrow (ci_data_type c) (ci_udt_name c))"

definition fields_of :: "string \<times> string \<Rightarrow> column_info list \<Rightarrow> field list" where
  "fields_of k cs = List.map_filter readable (filter (\<lambda>c. table_key c = k) cs)"

definition table_of :: "column_info list \<Rightarrow> string \<times> string \<Rightarrow> table_schema" where
  "table_of cs k = \<lparr>t_schema = fst k, t_name = snd k, t_fields = fields_of k cs\<rparr>"

text \<open>The columns of a table are adjacent.\<close>

definition adjacent :: "column_info list \<Rightarrow> bool" where
  "adjacent cs \<longleftrightarrow> distinct (remdups_adj (map table_key cs))"

lemma remdups_adj_snoc:
  "remdups_adj (xs @ [x]) =
     (if xs \<noteq> [] \<and> last xs = x then remdups_adj xs else remdups_adj xs @ [x])"
  by (induction xs rule: remdups_adj.induct) auto

lemma fields_of_snoc:
  "fields_of k (cs @ [c]) =
     fields_of k cs @ (if table_key c = k then (case readable c of Some f \<Rightarrow> [f] | None \<Rightarrow> []) else [])"
  by (auto simp: fields_of_def map_filter_def split: option.splits)

lemma fields_of_none: "k \<notin> table_key ` set cs \<Longrightarrow> fields_of k cs = []"
  by (induction cs) (auto simp: fields_of_def map_filter_simps)

lemma table_of_snoc:
  "table_of (cs @ [c]) k =
     (if table_key c = k then (table_of cs k)\<lparr>t_fields := fields_of k (cs @ [c])\<rparr> else table_of cs k)"
  by (simp add: table_of_def fields_of_snoc)

lemma adjacent_snoc:
  assumes "adjacent (cs @ [c])"
  shows "adjacent cs"
    and "\<not> (cs \<noteq> [] \<and> last (map table_key cs) = table_key c) \<Longrightarrow> table_key c \<notin> table_key ` set cs"
  using assms
  by (auto simp: adjacent_def remdups_adj_snoc last_map split: if_splits)

lemma map_table_of_snoc:
  "table_key c \<notin> set ks \<Longrightarrow> map (table_of (cs @ [c])) ks = map (table_of cs) ks"
  by (auto simp: table_of_snoc)

lemma push_column_groups:
  "adjacent cs \<Longrightarrow> foldl push_column [] cs = map (table_of cs) (remdups_adj (map table_key cs))"
proof (induction cs rule: rev_induct)
  case Nil
  then show ?case by simp
next
  case (snoc c cs)
  let ?ks = "remdups_adj (map table_key cs)"
  note adj = adjacent_snoc [OF snoc.prems]
  have IH: "foldl push_column [] cs = map (table_of cs) ?ks" using snoc.IH adj(1) by simp
  show ?case
  proof (cases "cs \<noteq> [] \<and> last (map table_key cs) = table_key c")
    case True
    then have ne: "?ks \<noteq> []" "last ?ks = table_key c" by simp_all
    then obtain ks where ks: "?ks = ks @ [table_key c]" by (metis append_butlast_last_id)
    then have nin: "table_key c \<notin> set ks" using adj(1) by (simp add: adjacent_def)
    have same: "same_table (table_of cs (table_key c)) c"
      by (simp add: same_table_def table_of_def table_key_def)
    have "foldl push_column [] (cs @ [c]) = push_column (map (table_of cs) ks @ [table_of cs (table_key c)]) c"
      by (simp add: IH ks)
    also have "\<dots> = map (table_of cs) ks @ [table_of (cs @ [c]) (table_key c)]"
      using same
      by (simp add: push_column_def table_of_snoc fields_of_snoc readable_def table_of_def
          split: option.splits)
    also have "\<dots> = map (table_of (cs @ [c])) ?ks"
      using map_table_of_snoc [OF nin, of cs] by (simp add: ks)
    also have "?ks = remdups_adj (map table_key (cs @ [c]))"
      using True by (simp add: remdups_adj_snoc)
    finally show ?thesis .
  next
    case False
    have nin: "table_key c \<notin> set ?ks" using adj(2) [OF False] by simp
    have new: "\<not> (map (table_of cs) ?ks \<noteq> [] \<and> same_table (last (map (table_of cs) ?ks)) c)"
    proof
      assume a: "map (table_of cs) ?ks \<noteq> [] \<and> same_table (last (map (table_of cs) ?ks)) c"
      then have ne: "?ks \<noteq> []" by simp
      have "fst (last ?ks) = ci_schema c \<and> snd (last ?ks) = ci_table c"
        using a unfolding last_map [OF ne] by (simp add: same_table_def table_of_def)
      then have "last ?ks = table_key c" by (simp add: table_key_def prod_eq_iff del: last_remdups_adj)
      with ne nin show False by (metis last_in_set)
    qed
    have "fields_of (table_key c) cs = []" using nin by (intro fields_of_none) simp
    then have "foldl push_column [] (cs @ [c]) = map (table_of cs) ?ks @ [table_of (cs @ [c]) (table_key c)]"
      using new IH
      by (auto simp: push_column_def table_of_def fields_of_snoc readable_def table_key_def
          split: option.splits)
    also have "\<dots> = map (table_of (cs @ [c])) (?ks @ [table_key c])"
      using map_table_of_snoc [OF nin, of cs] by simp
    also have "?ks @ [table_key c] = remdups_adj (map table_key (cs @ [c]))"
      using False by (auto simp: remdups_adj_snoc)
    finally show ?thesis .
  qed
qed

subsection \<open>Types\<close>

lemma pg_type_to_arrow_cases:
  "pg_type_to_arrow d u = Some dt \<Longrightarrow>
   dt \<in> {Int16, Int32, Int64, Float32, Float64, Utf8, Boolean, Binary, Date32,
     Timestamp Nanosecond None, Timestamp Nanosecond (Some ''+00:00'')}"
  by (simp add: pg_type_to_arrow_def udt_to_arrow_def Let_def split: if_splits)

lemma decodable:
  "pg_type_to_arrow d u = Some dt \<Longrightarrow> decode_as dt kind \<noteq> None \<and> array_type dt = dt"
  by (drule pg_type_to_arrow_cases, simp only: insert_iff empty_iff, elim disjE)
    (simp_all add: decode_as_def array_type_def)

text \<open>The types \<open>information_schema\<close> reports for the supported columns, and the Rust type
  that reads each from the wire.\<close>

definition wire_types :: "(string \<times> string \<times> rust_type) list" where
  "wire_types =
     [(''smallint'', ''int2'', R_i16), (''integer'', ''int4'', R_i32), (''bigint'', ''int8'', R_i64),
      (''real'', ''float4'', R_f32), (''double precision'', ''float8'', R_f64),
      (''text'', ''text'', R_String), (''character varying'', ''varchar'', R_String),
      (''character'', ''bpchar'', R_String), (''boolean'', ''bool'', R_bool),
      (''bytea'', ''bytea'', R_Bytes), (''date'', ''date'', R_NaiveDate),
      (''timestamp without time zone'', ''timestamp'', R_NaiveDateTime),
      (''timestamp with time zone'', ''timestamptz'', R_DateTimeUtc),
      (''uuid'', ''uuid'', R_Uuid), (''json'', ''json'', R_Json), (''jsonb'', ''jsonb'', R_Json)]"

definition decoder_of :: "column_info \<Rightarrow> rust_type option" where
  "decoder_of c = Option.bind (readable c) (\<lambda>f. decode_as (f_type f) (f_meta f pg_type_meta_key))"

text \<open>What depends on the names only through their lower case.\<close>

lemma decoder_of_lower:
  "decoder_of c = decoder_of (c\<lparr>ci_data_type := to_ascii_lowercase (ci_data_type c),
     ci_udt_name := to_ascii_lowercase (ci_udt_name c)\<rparr>)"
proof -
  have l: "pg_type_to_arrow (to_ascii_lowercase d) (to_ascii_lowercase u) = pg_type_to_arrow d u"
    "ambiguous_pg_type (to_ascii_lowercase d) (to_ascii_lowercase u) = ambiguous_pg_type d u" for d u
    unfolding pg_type_to_arrow_def ambiguous_pg_type_def to_ascii_lowercase_idem by (rule refl)+
  show ?thesis
    by (cases "pg_type_to_arrow (ci_data_type c) (ci_udt_name c)")
      (simp_all add: decoder_of_def readable_def column_field_def l)
qed

text \<open>A field the table provider can scan: it has a decoder, and its array has its very type.\<close>

definition scannable :: "field \<Rightarrow> bool" where
  "scannable f \<longleftrightarrow> decode_as (f_type f) (f_meta f pg_type_meta_key) \<noteq> None \<and>
     array_type (f_type f) = f_type f"

lemma column_field_scannable:
  "pg_type_to_arrow (ci_data_type c) (ci_udt_name c) = Some dt \<Longrightarrow> scannable (column_field c dt)"
  using decodable [of "ci_data_type c" "ci_udt_name c" dt]
  by (simp add: scannable_def column_field_def)

lemma push_column_scannable:
  assumes "list_all (\<lambda>t. list_all scannable (t_fields t)) tabs"
  shows "list_all (\<lambda>t. list_all scannable (t_fields t)) (push_column tabs c)"
proof -
  have "list_all (\<lambda>t. list_all scannable (t_fields t)) (butlast tabs)"
    using assms by (auto simp: list_all_iff dest: in_set_butlastD)
  moreover have "tabs \<noteq> [] \<Longrightarrow> list_all scannable (t_fields (last tabs))"
    using assms by (auto simp: list_all_iff)
  ultimately show ?thesis
    using assms
    by (cases "pg_type_to_arrow (ci_data_type c) (ci_udt_name c)")
      (simp_all add: push_column_def column_field_scannable)
qed

lemma group_scannable:
  "list_all (\<lambda>t. t_fields t \<noteq> [] \<and> list_all scannable (t_fields t)) (group_columns_into_tables cs)"
proof -
  have "list_all (\<lambda>t. list_all scannable (t_fields t)) (foldl push_column [] cs)"
    by (induction cs rule: rev_induct) (simp_all add: push_column_scannable)
  then show ?thesis by (auto simp: group_columns_into_tables_def list_all_iff)
qed

subsection \<open>Aliases\<close>

text \<open>Every alias is the first candidate that is neither reserved nor an earlier alias.\<close>

definition first_free :: "string set \<Rightarrow> table_alias list \<Rightarrow> bool" where
  "first_free R out \<longleftrightarrow>
     (\<forall>pre a post. out = pre @ a # post \<longrightarrow>
        find (\<lambda>c. c \<notin> R \<union> a_alias ` set pre) (candidates (a_source a) (a_table a)) = Some (a_alias a))"

lemma first_free_snoc:
  "first_free R (out @ [a]) \<longleftrightarrow> first_free R out \<and>
     find (\<lambda>c. c \<notin> R \<union> a_alias ` set out) (candidates (a_source a) (a_table a)) = Some (a_alias a)"
proof -
  have split: "out @ [a] = pre @ b # post \<longleftrightarrow>
      (post = [] \<and> pre = out \<and> b = a) \<or> (\<exists>post'. post = post' @ [a] \<and> out = pre @ b # post')"
    for pre b post
    by (cases post rule: rev_cases) auto
  show ?thesis unfolding first_free_def split by blast
qed

lemma first_free_Nil [simp]: "first_free R []"
  by (simp add: first_free_def)

lemma find_Some_in: "find P xs = Some x \<Longrightarrow> P x \<and> x \<in> set xs"
  by (induction xs) (auto split: if_splits)

lemma first_free_distinct:
  "first_free R out \<Longrightarrow> distinct (map a_alias out) \<and> a_alias ` set out \<inter> R = {} \<and>
     (\<forall>a \<in> set out. a_alias a \<in> set (candidates (a_source a) (a_table a)))"
proof (induction out rule: rev_induct)
  case (snoc a out)
  then have f: "find (\<lambda>c. c \<notin> R \<union> a_alias ` set out) (candidates (a_source a) (a_table a)) =
      Some (a_alias a)" and IH: "distinct (map a_alias out)" "a_alias ` set out \<inter> R = {}"
      "\<forall>a \<in> set out. a_alias a \<in> set (candidates (a_source a) (a_table a))"
    by (simp_all add: first_free_snoc)
  from f have "a_alias a \<notin> R \<union> a_alias ` set out" "a_alias a \<in> set (candidates (a_source a) (a_table a))"
    by (auto dest: find_Some_in)
  with IH show ?case by auto
qed simp

definition covered :: "string set \<Rightarrow> table_alias list \<Rightarrow> string \<Rightarrow> table_schema \<Rightarrow> bool" where
  "covered R out source t \<longleftrightarrow>
     (\<exists>a \<in> set out. a_source a = source \<and> a_table a = t) \<or>
     set (candidates source t) \<subseteq> R \<union> a_alias ` set out"

lemma covered_mono: "covered R out source t \<Longrightarrow> covered R (out @ rest) source t"
  by (auto simp: covered_def)

definition targets :: "table_alias list \<Rightarrow> (string \<times> table_schema) list" where
  "targets out = map (\<lambda>a. (a_source a, a_table a)) out"

lemma alias_tables_spec:
  assumes "alias_tables source ts used out = (used', out')"
    and "set used = R \<union> a_alias ` set out" and "first_free R out"
  shows "set used' = R \<union> a_alias ` set out' \<and> first_free R out' \<and>
    (\<exists>rest. out' = out @ rest \<and> subseq (targets rest) (map (Pair source) ts)) \<and>
    (\<forall>t \<in> set ts. covered R out' source t)"
  using assms
proof (induction ts arbitrary: used out)
  case Nil
  then show ?case by (auto simp: targets_def)
next
  case (Cons t ts)
  show ?case
  proof (cases "find (\<lambda>c. c \<notin> set used) (candidates source t)")
    case None
    then have "covered R out source t"
      using Cons.prems(2) by (auto simp: covered_def find_None_iff)
    moreover from Cons.IH [of used out] Cons.prems None
    have "set used' = R \<union> a_alias ` set out' \<and> first_free R out' \<and>
      (\<exists>rest. out' = out @ rest \<and> subseq (targets rest) (map (Pair source) ts)) \<and>
      (\<forall>t \<in> set ts. covered R out' source t)" by simp
    ultimately show ?thesis using covered_mono by fastforce
  next
    case (Some c)
    let ?a = "\<lparr>a_alias = c, a_source = source, a_table = t\<rparr>"
    have run: "alias_tables source ts (hs_insert c used) (out @ [?a]) = (used', out')"
      using Cons.prems(1) Some by simp
    have u: "set (hs_insert c used) = R \<union> a_alias ` set (out @ [?a])"
      using Cons.prems(2) by (auto simp: hs_insert_def)
    have ff: "first_free R (out @ [?a])"
      using Cons.prems(2,3) Some by (simp add: first_free_snoc)
    from Cons.IH [OF run u ff] obtain rest where rest: "set used' = R \<union> a_alias ` set out'"
        "first_free R out'" "out' = (out @ [?a]) @ rest" "subseq (targets rest) (map (Pair source) ts)"
        "\<forall>t \<in> set ts. covered R out' source t" by blast
    have "covered R out' source t" unfolding rest(3) by (auto simp: covered_def)
    moreover have "out' = out @ (?a # rest) \<and> subseq (targets (?a # rest)) (map (Pair source) (t # ts))"
      using rest(3,4) by (simp add: targets_def)
    ultimately show ?thesis using rest by (auto simp del: list.map)
  qed
qed

definition all_tables :: "source_tables list \<Rightarrow> (string \<times> table_schema) list" where
  "all_tables ss = concat (map (\<lambda>s. map (Pair (s_source s)) (s_tables s)) ss)"

lemma alias_sources_spec:
  assumes "alias_sources ss used out = (used', out')"
    and "set used = R \<union> a_alias ` set out" and "first_free R out"
  shows "first_free R out' \<and> (\<exists>rest. out' = out @ rest \<and> subseq (targets rest) (all_tables ss)) \<and>
    (\<forall>(src, t) \<in> set (all_tables ss). covered R out' src t)"
  using assms
proof (induction ss arbitrary: used out)
  case Nil
  then show ?case by (auto simp: targets_def all_tables_def)
next
  case (Cons s ss)
  obtain u1 o1 where 1: "alias_tables (s_source s) (s_tables s) used out = (u1, o1)" by fastforce
  note S = alias_tables_spec [OF 1 Cons.prems(2,3)]
  then obtain m1 where m1: "o1 = out @ m1" "subseq (targets m1) (map (Pair (s_source s)) (s_tables s))"
    by blast
  have run: "alias_sources ss u1 o1 = (used', out')" using Cons.prems(1) 1 by simp
  from Cons.IH [OF run] S obtain m2 where m2: "first_free R out'" "out' = o1 @ m2"
      "subseq (targets m2) (all_tables ss)" "\<forall>(src, t) \<in> set (all_tables ss). covered R out' src t"
    by blast
  have "subseq (targets (m1 @ m2)) (all_tables (s # ss))"
    using m1(2) m2(3) by (simp add: targets_def all_tables_def list_emb_append_mono)
  moreover have "\<forall>t \<in> set (s_tables s). covered R out' (s_source s) t"
    using S covered_mono unfolding m2(2) by blast
  ultimately show ?case
    using m1(1) m2 by (auto simp: all_tables_def)
qed

subsection \<open>Properties\<close>

text \<open>Concrete columns and tables for the witnesses.\<close>

definition sample_columns :: "column_info list" where
  "sample_columns =
     map column_info_of
       [(''public'', ''users'', ''id'', ''bigint'', ''int8'', ''NO''),
        (''public'', ''users'', ''tags'', ''ARRAY'', ''_text'', ''YES''),
        (''public'', ''users'', ''doc'', ''JSONB'', ''jsonb'', ''YES''),
        (''public'', ''blobs'', ''x'', ''numeric'', ''numeric'', ''YES'')]"

definition users :: "string \<Rightarrow> table_schema" where
  "users sch = \<lparr>t_schema = sch, t_name = ''users'', t_fields = []\<rparr>"

definition sample_sources :: "source_tables list" where
  "sample_sources = [\<lparr>s_source = ''a'', s_tables = [users ''public'', users ''old'']\<rparr>,
     \<lparr>s_source = ''b'', s_tables = [users ''public'', users ''old'']\<rparr>]"

text \<open>When the columns of a table are adjacent, as the introspection query orders them, grouping
  yields one table per distinct (schema, table) pair that has a readable column, in order of
  appearance, with exactly its readable columns in their order; columns of unsupported type and
  tables without a readable column are left out, nothing else is.\<close>

lemma grouping_exact:
  assumes "adjacent cs"
  shows "group_columns_into_tables cs =
    filter (\<lambda>t. t_fields t \<noteq> []) (map (table_of cs) (remdups_adj (map table_key cs)))"
  by (simp add: group_columns_into_tables_def push_column_groups [OF assms])

lemma grouping_example:
  "map (\<lambda>t. (t_schema t, t_name t, map f_name (t_fields t))) (group_columns_into_tables sample_columns) =
     [(''public'', ''users'', [''id'', ''doc''])]"
proof -
  have "adjacent sample_columns" by code_simp
  moreover have "map (\<lambda>t. (t_schema t, t_name t, map f_name (t_fields t))) (filter (\<lambda>t. t_fields t \<noteq> [])
      (map (table_of sample_columns) (remdups_adj (map table_key sample_columns)))) =
      [(''public'', ''users'', [''id'', ''doc''])]"
    by code_simp
  ultimately show ?thesis using grouping_exact [of sample_columns] by simp
qed

text \<open>C18: the decoder asks for the Rust type that matches the wire format: for each supported
  PostgreSQL type, in any letter case, the mapping to Arrow and the recorded source type together
  lead the scan to that type's decoder.\<close>

theorem decoder_matches_wire:
  assumes "(to_ascii_lowercase (ci_data_type c), to_ascii_lowercase (ci_udt_name c), rt) \<in> set wire_types"
  shows "decoder_of c = Some rt"
proof -
  have "list_all (\<lambda>(d, u, rt). decoder_of (\<lparr>ci_schema = ci_schema c, ci_table = ci_table c,
      ci_column = ci_column c, ci_data_type = d, ci_udt_name = u, ci_is_nullable = ci_is_nullable c\<rparr>) =
      Some rt) wire_types"
    by (simp add: wire_types_def decoder_of_def readable_def column_field_def pg_type_to_arrow_def
        udt_to_arrow_def ambiguous_pg_type_def to_ascii_lowercase_def lower_byte_def
        is_ascii_uppercase_def decode_as_def)
  with assms have "decoder_of (c\<lparr>ci_data_type := to_ascii_lowercase (ci_data_type c),
      ci_udt_name := to_ascii_lowercase (ci_udt_name c)\<rparr>) = Some rt"
    by (cases c) (auto simp: list_all_iff)
  then show ?thesis by (subst decoder_of_lower)
qed

lemma decoder_matches_wire_witness: "decoder_of (sample_columns ! 2) = Some R_Json"
  by (rule decoder_matches_wire) code_simp

text \<open>C19: introspection returns tables in order of schema priority, then by name, a permutation of
  the grouped tables; every field of every table has a decoder and an Arrow type that the scan's
  arrays have exactly, so no scan of an introspected table fails for an unsupported type; the
  warnings are the allowlisted names that no returned table has.\<close>

theorem introspection_result:
  assumes "introspect_tables q schemas allow = Inr (ts, warned)"
  shows "(\<exists>rows. q schemas allow = Inr rows \<and>
      mset ts = mset (group_columns_into_tables (map column_info_of rows))) \<and>
    sorted (map (\<lambda>t. (schema_rank schemas (t_schema t), t_name t)) ts) \<and>
    (\<forall>t \<in> set ts. t_fields t \<noteq> [] \<and> list_all scannable (t_fields t)) \<and>
    set warned = (case allow of None \<Rightarrow> {} | Some ns \<Rightarrow> set ns - t_name ` set ts)"
proof -
  from assms obtain rows where rows: "q schemas allow = Inr rows"
      and ts: "ts = order_by_schema_priority (group_columns_into_tables (map column_info_of rows)) schemas"
      and w: "warned = (case allow of Some ns \<Rightarrow> warn_unmatched_allowlist ns ts | None \<Rightarrow> [])"
    by (cases "q schemas allow") (auto simp: introspect_tables_def Let_def)
  have "mset ts = mset (group_columns_into_tables (map column_info_of rows))"
    "sorted (map (\<lambda>t. (schema_rank schemas (t_schema t), t_name t)) ts)"
    by (simp_all add: ts order_by_schema_priority_def)
  moreover have "set ts = set (group_columns_into_tables (map column_info_of rows))"
    by (simp add: ts order_by_schema_priority_def)
  then have "\<forall>t \<in> set ts. t_fields t \<noteq> [] \<and> list_all scannable (t_fields t)"
    using group_scannable [of "map column_info_of rows"] unfolding list_all_iff by metis
  moreover have "set warned = (case allow of None \<Rightarrow> {} | Some ns \<Rightarrow> set ns - t_name ` set ts)"
    by (cases allow) (auto simp: w warn_unmatched_allowlist_def list_ex_iff)
  ultimately show ?thesis using rows by simp
qed

definition sample_rows :: "info_row list" where
  "sample_rows =
     [(''audit'', ''log'', ''at'', ''timestamp with time zone'', ''timestamptz'', ''NO''),
      (''public'', ''users'', ''id'', ''bigint'', ''int8'', ''NO'')]"

lemma introspection_result_witness:
  "\<exists>ts warned. introspect_tables (\<lambda>ss al. Inr sample_rows) [''public'', ''audit''] (Some [''users'', ''usres'']) =
     Inr (ts, warned) \<and> map t_name ts = [''users'', ''log''] \<and> set warned = {''users'', ''usres''} - t_name ` set ts"
proof -
  let ?g = "group_columns_into_tables (map column_info_of sample_rows)"
  let ?r = "introspect_tables (\<lambda>ss al. Inr sample_rows) [''public'', ''audit''] (Some [''users'', ''usres''])"
  have "map (\<lambda>t. (t_schema t, t_name t)) ?g = [(''audit'', ''log''), (''public'', ''users'')]"
    by code_simp
  then obtain a b where g: "?g = [a, b]" "t_schema a = ''audit''" "t_name a = ''log''"
      "t_schema b = ''public''" "t_name b = ''users''"
    by auto
  then have o: "order_by_schema_priority ?g [''public'', ''audit''] = [b, a]"
    by (simp add: order_by_schema_priority_def schema_rank_def)
  then obtain warned where r: "?r = Inr ([b, a], warned)"
    by (simp add: introspect_tables_def Let_def)
  from introspection_result [OF r] g r show ?thesis by simp
qed

text \<open>C20: aliases are unambiguous: pairwise distinct, never a reserved name, and each is the first of
  its table's three candidates (bare name, schema and name, source, schema and name) that is
  neither reserved nor taken by an earlier alias. They follow the order of sources and tables, and a
  table is left without one only when all its candidates are taken.\<close>

theorem aliases_unambiguous:
  "distinct (map a_alias (resolve_aliases sources reserved)) \<and>
   a_alias ` set (resolve_aliases sources reserved) \<inter> set reserved = {} \<and>
   first_free (set reserved) (resolve_aliases sources reserved) \<and>
   subseq (targets (resolve_aliases sources reserved)) (all_tables sources) \<and>
   (\<forall>(src, t) \<in> set (all_tables sources). covered (set reserved) (resolve_aliases sources reserved) src t)"
proof -
  obtain u A where r: "alias_sources sources (fold hs_insert reserved []) [] = (u, A)" by fastforce
  have "set (fold hs_insert reserved s) = set reserved \<union> set s" for s
    by (induction reserved arbitrary: s) (auto simp: hs_insert_def)
  then have "set (fold hs_insert reserved []) = set reserved \<union> a_alias ` set []" by simp
  from alias_sources_spec [OF r this first_free_Nil]
  have "first_free (set reserved) A" "subseq (targets A) (all_tables sources)"
    "\<forall>(src, t) \<in> set (all_tables sources). covered (set reserved) A src t" by auto
  with first_free_distinct [of "set reserved" A] r show ?thesis by (simp add: resolve_aliases_def)
qed

lemma aliases_unambiguous_witness:
  "map a_alias (resolve_aliases sample_sources [''iceberg'']) =
     [''users'', ''old__users'', ''public__users'', ''b__old__users''] \<and>
   covered {''iceberg''} (resolve_aliases sample_sources [''iceberg'']) ''b'' (users ''old'')"
proof -
  have "map a_alias (resolve_aliases sample_sources [''iceberg'']) =
     [''users'', ''old__users'', ''public__users'', ''b__old__users'']" by code_simp
  moreover have "(''b'', users ''old'') \<in> set (all_tables sample_sources)"
    by (simp add: all_tables_def sample_sources_def)
  ultimately show ?thesis using aliases_unambiguous [of sample_sources "[''iceberg'']"] by auto
qed

end
