(* ===== verification/Engine_Spec.thy ===== *)
theory Engine_Spec
  imports Engine Catalog_Spec
begin

text \<open>
  Start-up registration and placeholder types of \<open>src/datafusion_engine.rs\<close>. The registration
  theorem assumes of DataFusion's session and catalogs only \<open>registry_laws\<close>: a table is
  registered under the reference its name parses to, once, and a catalog under its name.
\<close>

subsection \<open>Placeholders\<close>

definition numbered :: "nat \<Rightarrow> (string \<times> data_type option) list \<Rightarrow> data_type option option" where
  "numbered n types = map_option snd (find (\<lambda>e. index_of (fst e) = Some n) types)"

lemma numbered_simps [simp]:
  "numbered n [] = None"
  "numbered n (e # types) = (if index_of (fst e) = Some n then Some (snd e) else numbered n types)"
  by (simp_all add: numbered_def)

lemma numbered_None: "numbered n types = None \<longleftrightarrow> (\<forall>e \<in> set types. index_of (fst e) \<noteq> Some n)"
  by (auto simp: numbered_def find_None_iff)

lemma placeholder_count_Max:
  "placeholder_count ids = Max (insert 0 {n. \<exists>i \<in> set ids. index_of i = Some n})"
proof -
  have "set (List.map_filter index_of ids) = {n. \<exists>i \<in> set ids. index_of i = Some n}"
    by (force simp: List.map_filter_def)
  then show ?thesis
    using Max.set_eq_fold [of 0 "List.map_filter index_of ids"] by (simp add: placeholder_count_def)
qed

lemma placeholder_count_ge: "i \<in> set ids \<Longrightarrow> index_of i = Some n \<Longrightarrow> n \<le> placeholder_count ids"
proof -
  have "finite {n. \<exists>i \<in> set ids. index_of i = Some n}"
    by (rule finite_surj [of "set ids" _ "\<lambda>i. the (index_of i)"]) force+
  then show "i \<in> set ids \<Longrightarrow> index_of i = Some n \<Longrightarrow> n \<le> placeholder_count ids"
    unfolding placeholder_count_Max by (intro Max_ge) auto
qed

lemma length_put_types [simp]: "length (fold (put_type c) types out) = length out"
  by (induction types arbitrary: out) (auto simp: put_type_def split: option.splits)

lemma put_types_nth:
  assumes "distinct (List.map_filter (\<lambda>e. index_of (fst e)) types)" and "k < c" and "length out = c"
  shows "fold (put_type c) types out ! k =
    (case numbered (Suc k) types of Some dt \<Rightarrow> dt | None \<Rightarrow> out ! k)"
  using assms
proof (induction types arbitrary: out)
  case (Cons e types)
  obtain i dt where e: "e = (i, dt)" by (cases e)
  have d: "distinct (List.map_filter (\<lambda>e. index_of (fst e)) types)"
    using Cons.prems(1) by (auto simp: List.map_filter_simps split: option.splits)
  have l: "length (put_type c e out) = c"
    using Cons.prems(3) by (auto simp: put_type_def e split: option.splits)
  note IH = Cons.IH [OF d Cons.prems(2) l]
  show ?case
  proof (cases "index_of i = Some (Suc k)")
    case True
    with Cons.prems(1) have "numbered (Suc k) types = None"
      by (force simp: e List.map_filter_simps numbered_None List.map_filter_def)
    with IH True Cons.prems show ?thesis by (simp add: e put_type_def)
  next
    case False
    then have "put_type c e out ! k = out ! k"
      using Cons.prems by (auto simp: put_type_def e nth_list_update split: option.splits)
    with IH False show ?thesis by (simp add: e cong: option.case_cong)
  qed
qed simp

subsection \<open>What is assumed of DataFusion\<close>

definition registry_laws ::
  "('s, 'c, 'p) registry \<Rightarrow> (string \<Rightarrow> string) \<Rightarrow> ('s \<Rightarrow> string \<Rightarrow> 'p option) \<Rightarrow> ('s \<Rightarrow> string \<Rightarrow> 'c option) \<Rightarrow>
   ('c \<Rightarrow> string \<Rightarrow> string \<Rightarrow> 'p option) \<Rightarrow> bool" where
  "registry_laws reg ref tbl cat ctbl \<longleftrightarrow>
     (\<forall>s n p s'. ctx_register_table reg s n p = Inr s' \<longrightarrow>
        tbl s (ref n) = None \<and> tbl s' = (tbl s)(ref n \<mapsto> p) \<and> cat s' = cat s) \<and>
     (\<forall>s n c. n \<noteq> ''datafusion'' \<longrightarrow>
        tbl (ctx_register_catalog reg s n c) = tbl s \<and>
        cat (ctx_register_catalog reg s n c) = (cat s)(n \<mapsto> c)) \<and>
     (\<forall>sch t. ctbl (new_catalog reg) sch t = None) \<and>
     (\<forall>c n c'. \<not> cat_has_schema reg c n \<and> cat_register_schema reg c n = Inr c' \<longrightarrow>
        cat_has_schema reg c' n \<and> ctbl c' = ctbl c) \<and>
     (\<forall>c sch t p c'. schema_register_table reg c sch t p = Inr c' \<longrightarrow>
        ctbl c sch t = None \<and> ctbl c' = (ctbl c)(sch := (ctbl c sch)(t \<mapsto> p)))"

lemma laws_table:
  "registry_laws reg ref tbl cat ctbl \<Longrightarrow> ctx_register_table reg s n p = Inr s' \<Longrightarrow>
   tbl s (ref n) = None \<and> tbl s' = (tbl s)(ref n \<mapsto> p) \<and> cat s' = cat s"
  by (simp add: registry_laws_def)

lemma laws_catalog:
  "registry_laws reg ref tbl cat ctbl \<Longrightarrow> n \<noteq> ''datafusion'' \<Longrightarrow>
   tbl (ctx_register_catalog reg s n c) = tbl s \<and> cat (ctx_register_catalog reg s n c) = (cat s)(n \<mapsto> c)"
  by (simp add: registry_laws_def)

lemma laws_schema:
  "registry_laws reg ref tbl cat ctbl \<Longrightarrow> schema_provider reg c n = Inr c' \<Longrightarrow> ctbl c' = ctbl c"
  "registry_laws reg ref tbl cat ctbl \<Longrightarrow> schema_provider reg c n \<noteq> Inl (Panicked m)"
  by (auto simp: schema_provider_def registry_laws_def err_case split: if_splits)

lemma laws_schema_table:
  "registry_laws reg ref tbl cat ctbl \<Longrightarrow> schema_register_table reg c sch t p = Inr c' \<Longrightarrow>
   ctbl c sch t = None \<and> ctbl c' = (ctbl c)(sch := (ctbl c sch)(t \<mapsto> p))"
  by (simp add: registry_laws_def)

subsection \<open>The registration loops\<close>

definition found_source ::
  "(string \<Rightarrow> string + 'cell pg_client) \<Rightarrow>
   ('cell pg_client \<Rightarrow> string list \<Rightarrow> string list option \<Rightarrow> string + info_row list) \<Rightarrow>
   (string, 'cell pg_client) hash_map \<Rightarrow> postgres_source \<Rightarrow> source_tables \<Rightarrow> bool" where
  "found_source pg_connect info clients src d \<longleftrightarrow> s_source d = src_name src \<and>
     (\<exists>cl w. hm_get clients (src_name src) = Some cl \<and> pg_connect (expose (src_uri src)) = Inr cl \<and>
        introspect_tables (info cl) (src_schemas src) (src_tables src) = Inr (s_tables d, w))"

lemma discover_sources_spec:
  assumes "discover_sources pg_connect info sources clients disc = Inr (clients', disc')"
    and "distinct (map src_name sources)"
  shows "(\<exists>new. disc' = disc @ new \<and> list_all2 (found_source pg_connect info clients') sources new) \<and>
    (\<forall>n. n \<notin> src_name ` set sources \<longrightarrow> hm_get clients' n = hm_get clients n)"
  using assms
proof (induction sources arbitrary: clients disc)
  case (Cons src sources)
  from Cons.prems obtain cl tables w where cl: "pg_connect (expose (src_uri src)) = Inr cl"
    and t: "introspect_tables (info cl) (src_schemas src) (src_tables src) = Inr (tables, w)"
    and rest: "discover_sources pg_connect info sources (hm_insert (src_name src) cl clients)
        (disc @ [\<lparr>s_source = src_name src, s_tables = tables\<rparr>]) = Inr (clients', disc')"
    by (auto simp: err_case connect_source_def)
  let ?d = "\<lparr>s_source = src_name src, s_tables = tables\<rparr>"
  from Cons.IH [OF rest] Cons.prems(2) obtain new where
    new: "disc' = (disc @ [?d]) @ new" "list_all2 (found_source pg_connect info clients') sources new"
    and keep: "\<forall>n. n \<notin> src_name ` set sources \<longrightarrow> hm_get clients' n = hm_get (hm_insert (src_name src) cl clients) n"
    by auto
  have "found_source pg_connect info clients' src ?d"
    using cl t keep Cons.prems(2) by (simp add: found_source_def hmap)
  with new keep show ?case by (intro conjI exI [of _ "?d # new"]) (auto simp: hmap)
qed simp

definition key_of :: "string \<Rightarrow> table_schema \<Rightarrow> table_key" where
  "key_of source t = (source, t_schema t, t_name t)"

lemma register_tables_spec:
  assumes "registry_laws reg ref tbl cat ctbl"
    and "register_tables reg cl pd source ts c provs = Inr (c', provs')"
  shows "(\<forall>t \<in> set ts. ctbl c' (t_schema t) (t_name t) = Some (table_provider cl t pd) \<and>
      hm_get provs' (key_of source t) = Some (table_provider cl t pd)) \<and>
    (\<forall>sch n p. ctbl c sch n = Some p \<longrightarrow>
      ctbl c' sch n = Some p \<and> hm_get provs' (source, sch, n) = hm_get provs (source, sch, n)) \<and>
    (\<forall>sch n. (\<forall>t \<in> set ts. (t_schema t, t_name t) \<noteq> (sch, n)) \<longrightarrow> ctbl c' sch n = ctbl c sch n) \<and>
    (\<forall>k. fst k \<noteq> source \<longrightarrow> hm_get provs' k = hm_get provs k)"
  using assms(2)
proof (induction ts arbitrary: c provs)
  case (Cons t ts)
  let ?p = "table_provider cl t pd"
  from Cons.prems obtain c1 c2 where c1: "schema_provider reg c (t_schema t) = Inr c1"
    and c2: "schema_register_table reg c1 (t_schema t) (t_name t) ?p = Inr c2"
    and rest: "register_tables reg cl pd source ts c2
        (hm_insert (source, t_schema t, t_name t) ?p provs) = Inr (c', provs')"
    by (auto simp: err_case Let_def)
  from laws_schema_table [OF assms(1) c2] laws_schema(1) [OF assms(1) c1]
  have new: "ctbl c (t_schema t) (t_name t) = None"
    "ctbl c2 = (ctbl c)(t_schema t := (ctbl c (t_schema t))(t_name t \<mapsto> ?p))" by simp_all
  note IH = Cons.IH [OF rest]
  have old: "ctbl c2 sch n = Some p \<and> (sch, n) \<noteq> (t_schema t, t_name t)" if "ctbl c sch n = Some p" for sch n p
    using that new by auto
  have "hm_get provs' (source, sch, n) = hm_get provs (source, sch, n)" if "ctbl c sch n = Some p" for sch n p
    using IH old [OF that] by (auto simp: hmap)
  with IH new show ?case
    by (auto simp: key_of_def hmap dest: old)
qed simp

definition registered ::
  "('s \<Rightarrow> string \<Rightarrow> 'c option) \<Rightarrow> ('c \<Rightarrow> string \<Rightarrow> string \<Rightarrow> ('cell, 'l) provider option) \<Rightarrow> bool \<Rightarrow>
   (string, 'cell pg_client) hash_map \<Rightarrow> (table_key, ('cell, 'l) provider) hash_map \<Rightarrow> 's \<Rightarrow> source_tables \<Rightarrow> bool" where
  "registered cat ctbl pd clients provs s d \<longleftrightarrow>
     (\<exists>cl c. hm_get clients (s_source d) = Some cl \<and> cat s (s_source d) = Some c \<and>
        (\<forall>t \<in> set (s_tables d). ctbl c (t_schema t) (t_name t) = Some (table_provider cl t pd) \<and>
           hm_get provs (key_of (s_source d) t) = Some (table_provider cl t pd)) \<and>
        (\<forall>sch n. (\<forall>t \<in> set (s_tables d). (t_schema t, t_name t) \<noteq> (sch, n)) \<longrightarrow> ctbl c sch n = None))"

lemma laws_new_catalog: "registry_laws reg ref tbl cat ctbl \<Longrightarrow> ctbl (new_catalog reg) sch t = None"
  by (simp add: registry_laws_def)

lemma register_sources_spec:
  assumes laws: "registry_laws reg ref tbl cat ctbl"
    and "register_sources reg pd clients ds s provs = Inr (s', provs')"
    and "distinct (map s_source ds)" and "''datafusion'' \<notin> s_source ` set ds"
  shows "(\<forall>d \<in> set ds. registered cat ctbl pd clients provs' s' d) \<and> tbl s' = tbl s \<and>
    (\<forall>n. n \<notin> s_source ` set ds \<longrightarrow> cat s' n = cat s n \<and> (\<forall>k. hm_get provs' (n, k) = hm_get provs (n, k)))"
  using assms(2-)
proof (induction ds arbitrary: s provs)
  case (Cons d ds)
  let ?n = "s_source d"
  from Cons.prems(1) obtain cl c provs1 where cl: "hm_get clients ?n = Some cl"
    and c: "register_tables reg cl pd ?n (s_tables d) (new_catalog reg) provs = Inr (c, provs1)"
    and rest: "register_sources reg pd clients ds (ctx_register_catalog reg s ?n c) provs1 = Inr (s', provs')"
    by (auto simp: err_case split: prod.splits)
  let ?s = "ctx_register_catalog reg s ?n c"
  have n: "?n \<noteq> ''datafusion''" "?n \<notin> s_source ` set ds" using Cons.prems by auto
  from laws_catalog [OF laws n(1)] have s: "tbl ?s = tbl s" "cat ?s = (cat s)(?n \<mapsto> c)" by simp_all
  from Cons.IH [OF rest] Cons.prems have IH:
    "\<forall>d \<in> set ds. registered cat ctbl pd clients provs' s' d" "tbl s' = tbl ?s"
    "\<forall>n. n \<notin> s_source ` set ds \<longrightarrow> cat s' n = cat ?s n \<and> (\<forall>k. hm_get provs' (n, k) = hm_get provs1 (n, k))"
    by auto
  note tabs = register_tables_spec [OF laws c]
  have "registered cat ctbl pd clients provs' s' d"
    unfolding registered_def using cl tabs IH(3) n(2) s(2)
    by (intro exI [of _ cl] exI [of _ c]) (auto simp: key_of_def laws_new_catalog [OF laws])
  moreover have "hm_get provs1 (n, k) = hm_get provs (n, k)" if "n \<noteq> ?n" for n k
    using tabs that by (cases k) simp
  ultimately show ?case using IH s by auto
qed simp

definition alias_key :: "table_alias \<Rightarrow> table_key" where
  "alias_key a = key_of (a_source a) (a_table a)"

definition is_legacy :: "table_alias \<Rightarrow> bool" where
  "is_legacy a \<longleftrightarrow> t_name (a_table a) = legacy_source_table"

lemma register_aliases_spec:
  assumes laws: "registry_laws reg ref tbl cat ctbl"
    and "register_aliases reg provs as s legacy = Inr s'"
  shows "cat s' = cat s \<and> (\<forall>n p. tbl s n = Some p \<longrightarrow> tbl s' n = Some p) \<and>
    distinct (map (\<lambda>a. ref (a_alias a)) as) \<and>
    (\<forall>a \<in> set as. tbl s (ref (a_alias a)) = None \<and> hm_get provs (alias_key a) \<noteq> None \<and>
       tbl s' (ref (a_alias a)) = hm_get provs (alias_key a)) \<and>
    (\<forall>a. \<not> legacy \<and> find is_legacy as = Some a \<longrightarrow> tbl s' (ref legacy_alias) = hm_get provs (alias_key a))"
  using assms(2)
proof (induction as arbitrary: s legacy)
  case (Cons a as)
  from Cons.prems obtain p s1 where p: "hm_get provs (alias_key a) = Some p"
    and s1: "ctx_register_table reg s (a_alias a) p = Inr s1"
    by (auto simp: err_case alias_key_def key_of_def)
  from laws_table [OF laws s1] have t1: "tbl s (ref (a_alias a)) = None"
    "tbl s1 = (tbl s)(ref (a_alias a) \<mapsto> p)" "cat s1 = cat s" by simp_all
  define hit where "hit \<longleftrightarrow> \<not> legacy \<and> is_legacy a"
  obtain s2 where s2: "if hit then ctx_register_table reg s1 legacy_alias p = Inr s2 else s2 = s1"
    and rest: "register_aliases reg provs as s2 (legacy \<or> hit) = Inr s'"
    using Cons.prems p s1 hit_def
    by (cases hit; cases legacy) (auto simp: err_case alias_key_def key_of_def is_legacy_def)
  have t2: "tbl s2 = (if hit then (tbl s1)(ref legacy_alias \<mapsto> p) else tbl s1)" "cat s2 = cat s1"
    "hit \<Longrightarrow> tbl s1 (ref legacy_alias) = None"
    using s2 laws_table [OF laws, of s1 legacy_alias p s2] by (auto split: if_splits)
  have mono: "tbl s2 n = Some q" if "tbl s n = Some q" for n q
    using that t1 t2 by (auto split: if_splits)
  have a2: "tbl s2 (ref (a_alias a)) = Some p"
    using t1 t2 by (auto split: if_splits)
  note IH = Cons.IH [OF rest]
  have find: "find is_legacy (a # as) = (if is_legacy a then Some a else find is_legacy as)" by simp
  show ?case
  proof (intro conjI)
    show "cat s' = cat s" using IH t1 t2 by simp
    show "\<forall>n p. tbl s n = Some p \<longrightarrow> tbl s' n = Some p" using IH mono by blast
    have "\<forall>b \<in> set as. tbl s2 (ref (a_alias b)) = None" using IH by blast
    then show "distinct (map (\<lambda>a. ref (a_alias a)) (a # as))" using IH a2 by auto
    have "tbl s (ref (a_alias b)) = None" if "b \<in> set as" for b
      using IH that mono by (metis not_None_eq)
    then show "\<forall>b \<in> set (a # as). tbl s (ref (a_alias b)) = None \<and> hm_get provs (alias_key b) \<noteq> None \<and>
       tbl s' (ref (a_alias b)) = hm_get provs (alias_key b)"
      using IH a2 p t1 by auto
    have "tbl s' (ref legacy_alias) = Some p" if hit
      using IH t2 that by simp
    then show "\<forall>b. \<not> legacy \<and> find is_legacy (a # as) = Some b \<longrightarrow>
        tbl s' (ref legacy_alias) = hm_get provs (alias_key b)"
      using IH p by (auto simp: hit_def split: if_splits)
  qed
qed simp

subsection \<open>No failing expect\<close>

lemma discover_no_panic: "discover_sources pg_connect info sources clients disc \<noteq> Inl (Panicked m)"
  by (induction sources arbitrary: clients disc) (auto simp: err_case split: prod.splits)

lemma discover_sources_lists:
  assumes "discover_sources pg_connect info sources clients disc = Inr (clients', disc')"
    and "\<forall>d \<in> set disc. hm_get clients (s_source d) \<noteq> None"
  shows "\<forall>d \<in> set disc'. hm_get clients' (s_source d) \<noteq> None"
  using assms
proof (induction sources arbitrary: clients disc)
  case (Cons src sources)
  from Cons.prems(1) obtain cl tables where
    rest: "discover_sources pg_connect info sources (hm_insert (src_name src) cl clients)
        (disc @ [\<lparr>s_source = src_name src, s_tables = tables\<rparr>]) = Inr (clients', disc')"
    by (auto simp: err_case)
  show ?case by (rule Cons.IH [OF rest]) (use Cons.prems(2) in \<open>auto simp: hmap\<close>)
qed simp

lemma register_tables_keys:
  assumes "registry_laws reg ref tbl cat ctbl"
  shows "register_tables reg cl pd source ts c provs \<noteq> Inl (Panicked m) \<and>
    (\<forall>c' provs'. register_tables reg cl pd source ts c provs = Inr (c', provs') \<longrightarrow>
      (\<forall>k. hm_get provs' k = None \<longleftrightarrow> hm_get provs k = None \<and> k \<notin> key_of source ` set ts))"
proof (induction ts arbitrary: c provs)
  case (Cons t ts)
  show ?case
  proof (cases "schema_provider reg c (t_schema t)")
    case (Inl e)
    with laws_schema(2) [OF assms, of c "t_schema t" m] show ?thesis by simp
  next
    case (Inr c1)
    then show ?thesis
      using Cons.IH by (auto simp: Let_def err_case hmap key_of_def split: if_splits)
  qed
qed simp

lemma register_sources_keys:
  assumes "registry_laws reg ref tbl cat ctbl" and "\<forall>d \<in> set ds. hm_get clients (s_source d) \<noteq> None"
  shows "register_sources reg pd clients ds s provs \<noteq> Inl (Panicked m) \<and>
    (\<forall>s' provs'. register_sources reg pd clients ds s provs = Inr (s', provs') \<longrightarrow>
      (\<forall>d \<in> set ds. \<forall>t \<in> set (s_tables d). hm_get provs' (key_of (s_source d) t) \<noteq> None) \<and>
      (\<forall>k. hm_get provs k \<noteq> None \<longrightarrow> hm_get provs' k \<noteq> None))"
  using assms(2)
proof (induction ds arbitrary: s provs)
  case (Cons d ds)
  then obtain cl where cl: "hm_get clients (s_source d) = Some cl" by auto
  show ?case
  proof (cases "register_tables reg cl pd (s_source d) (s_tables d) (new_catalog reg) provs")
    case (Inl e)
    with register_tables_keys [OF assms(1), of cl pd "s_source d" "s_tables d" "new_catalog reg" provs m] cl
    show ?thesis by simp
  next
    case (Inr r)
    obtain c provs1 where r: "r = (c, provs1)" by (cases r)
    have keys: "hm_get provs1 k = None \<longleftrightarrow> hm_get provs k = None \<and> k \<notin> key_of (s_source d) ` set (s_tables d)" for k
      using register_tables_keys [OF assms(1)] Inr r by blast
    have IH: "register_sources reg pd clients ds s1 provs1 \<noteq> Inl (Panicked m) \<and>
      (\<forall>s' provs'. register_sources reg pd clients ds s1 provs1 = Inr (s', provs') \<longrightarrow>
        (\<forall>d \<in> set ds. \<forall>t \<in> set (s_tables d). hm_get provs' (key_of (s_source d) t) \<noteq> None) \<and>
        (\<forall>k. hm_get provs1 k \<noteq> None \<longrightarrow> hm_get provs' k \<noteq> None))" for s1
      using Cons.prems by (intro Cons.IH) simp
    have up: "hm_get provs k \<noteq> None \<Longrightarrow> hm_get provs1 k \<noteq> None"
      "t \<in> set (s_tables d) \<Longrightarrow> hm_get provs1 (key_of (s_source d) t) \<noteq> None" for k t
      by (simp_all add: keys del: not_None_eq)
    have step: "register_sources reg pd clients (d # ds) s provs =
        register_sources reg pd clients ds (ctx_register_catalog reg s (s_source d) c) provs1"
      by (simp add: cl Inr r)
    show ?thesis unfolding step using IH up by (auto simp del: not_None_eq split_paired_All)
  qed
qed simp

lemma register_aliases_no_panic:
  assumes "\<forall>a \<in> set as. hm_get provs (alias_key a) \<noteq> None"
  shows "register_aliases reg provs as s legacy \<noteq> Inl (Panicked m)"
  using assms
proof (induction as arbitrary: s legacy)
  case (Cons a as)
  then obtain p where "hm_get provs (alias_key a) = Some p" by auto
  with Cons show ?case by (auto simp: err_case alias_key_def key_of_def split: if_splits)
qed simp

lemma alias_targets:
  assumes "a \<in> set (resolve_aliases ds reserved)"
  shows "\<exists>d \<in> set ds. s_source d = a_source a \<and> a_table a \<in> set (s_tables d)"
proof -
  obtain u A where r: "alias_sources ds (fold hs_insert reserved []) [] = (u, A)" by fastforce
  have "set (fold hs_insert reserved s) = set reserved \<union> set s" for s
    by (induction reserved arbitrary: s) (auto simp: hs_insert_def)
  then have "set (fold hs_insert reserved []) = set reserved \<union> a_alias ` set []" by simp
  from alias_sources_spec [OF r this first_free_Nil] have "subseq (targets A) (all_tables ds)" by auto
  moreover have "(a_source a, a_table a) \<in> set (targets A)"
    using assms r by (auto simp: targets_def resolve_aliases_def)
  ultimately have "(a_source a, a_table a) \<in> set (all_tables ds)"
    by (auto elim: list_emb_set)
  then show ?thesis by (auto simp: all_tables_def)
qed

lemma register_sources_no_panic:
  assumes laws: "registry_laws reg ref tbl cat ctbl"
  shows "register_postgres_sources reg pg_connect info s sources pd \<noteq> Inl (Panicked m)"
proof (cases "discover_sources pg_connect info sources [] []")
  case (Inl e)
  then show ?thesis
    using discover_no_panic [of pg_connect info sources "[]" "[]" m]
    by (simp add: register_postgres_sources_def)
next
  case (Inr r)
  then obtain clients ds where ds: "discover_sources pg_connect info sources [] [] = Inr (clients, ds)"
    by (cases r) auto
  have "\<forall>d \<in> set ds. hm_get clients (s_source d) \<noteq> None"
    using discover_sources_lists [OF ds] by simp
  note keys = register_sources_keys [OF laws this, of pd s "[]" m]
  have "register_aliases reg provs (resolve_aliases ds [iceberg_table, legacy_alias]) s1 False \<noteq> Inl (Panicked m)"
    if "register_sources reg pd clients ds s [] = Inr (s1, provs)" for s1 provs
  proof (rule register_aliases_no_panic)
    show "\<forall>a \<in> set (resolve_aliases ds [iceberg_table, legacy_alias]). hm_get provs (alias_key a) \<noteq> None"
      using keys that alias_targets unfolding alias_key_def by metis
  qed
  with keys ds show ?thesis
    by (auto simp: register_postgres_sources_def err_case)
qed

lemma engine_new_no_panic:
  "registry_laws reg ref tbl cat ctbl \<Longrightarrow>
   new_with_pushdown reg parse_url listing pg_connect info ctx path sources pd \<noteq> Inl (Panicked m)"
  using register_sources_no_panic
  by (fastforce simp: new_with_pushdown_def register_iceberg_table_def err_case)

lemma registration_loops:
  assumes laws: "registry_laws reg ref tbl cat ctbl"
    and run: "register_postgres_sources reg pg_connect info s sources pd = Inr s'"
    and "distinct (map src_name sources)" and "''datafusion'' \<notin> src_name ` set sources"
  obtains clients found provs s1 where
    "list_all2 (found_source pg_connect info clients) sources found"
    "\<forall>d \<in> set found. registered cat ctbl pd clients provs s' d"
    "register_aliases reg provs (resolve_aliases found [iceberg_table, legacy_alias]) s1 False = Inr s'"
proof -
  from run obtain clients found s1 provs where
    d: "discover_sources pg_connect info sources [] [] = Inr (clients, found)" and
    r: "register_sources reg pd clients found s [] = Inr (s1, provs)" and
    a: "register_aliases reg provs (resolve_aliases found [iceberg_table, legacy_alias]) s1 False = Inr s'"
    by (auto simp: register_postgres_sources_def err_case)
  from discover_sources_spec [OF d assms(3)]
  have f: "list_all2 (found_source pg_connect info clients) sources found" by simp
  then have names: "map s_source found = map src_name sources"
    by (simp add: found_source_def list_all2_conv_all_nth list_eq_iff_nth_eq)
  with assms(3) have dist: "distinct (map s_source found)" by simp
  have "''datafusion'' \<notin> s_source ` set found"
    using assms(4) arg_cong [OF names, of set] by simp
  note reg = register_sources_spec [OF laws r dist this]
  have "cat s' = cat s1" using register_aliases_spec [OF laws a] by blast
  with reg have "\<forall>d \<in> set found. registered cat ctbl pd clients provs s' d"
    by (simp add: registered_def)
  with f a show thesis by (intro that)
qed

subsection \<open>Properties\<close>

text \<open>The table found under \<open><source>.<schema>.<table>\<close>.\<close>

definition canonical ::
  "('s \<Rightarrow> string \<Rightarrow> 'c option) \<Rightarrow> ('c \<Rightarrow> string \<Rightarrow> string \<Rightarrow> 'p option) \<Rightarrow> 's \<Rightarrow> string \<Rightarrow> table_schema \<Rightarrow> 'p option" where
  "canonical cat ctbl s source t =
     (case cat s source of None \<Rightarrow> None | Some c \<Rightarrow> ctbl c (t_schema t) (t_name t))"


text \<open>For the witness: a registry of association lists, whose references are lower-case names.\<close>

type_synonym ('cell, 'l) sample_catalog = "string list \<times> ((string \<times> string) \<times> ('cell, 'l) provider) list"
type_synonym ('cell, 'l) sample_session =
  "(string \<times> ('cell, 'l) provider) list \<times> (string \<times> ('cell, 'l) sample_catalog) list"

definition sample_registry ::
  "(('cell, 'l) sample_session, ('cell, 'l) sample_catalog, ('cell, 'l) provider) registry" where
  "sample_registry =
     \<lparr>ctx_register_table = (\<lambda>(t, c) n p.
        if map_of t (to_ascii_lowercase n) \<noteq> None then Inl ''exists'' else Inr ((to_ascii_lowercase n, p) # t, c)),
      ctx_register_catalog = (\<lambda>(t, c) n k. (t, (n, k) # c)),
      new_catalog = ([], []),
      cat_has_schema = (\<lambda>(ss, ts) n. n \<in> set ss),
      cat_register_schema = (\<lambda>(ss, ts) n. Inr (n # ss, ts)),
      schema_register_table = (\<lambda>(ss, ts) sch n p.
        if map_of ts (sch, n) \<noteq> None then Inl ''exists'' else Inr (ss, ((sch, n), p) # ts))\<rparr>"

definition sample_table :: "('cell, 'l) sample_session \<Rightarrow> string \<Rightarrow> ('cell, 'l) provider option" where
  "sample_table s = map_of (fst s)"

definition sample_catalogs :: "('cell, 'l) sample_session \<Rightarrow> string \<Rightarrow> ('cell, 'l) sample_catalog option" where
  "sample_catalogs s = map_of (snd s)"

definition sample_catalog_table ::
  "('cell, 'l) sample_catalog \<Rightarrow> string \<Rightarrow> string \<Rightarrow> ('cell, 'l) provider option" where
  "sample_catalog_table c sch n = map_of (snd c) (sch, n)"

lemma sample_laws:
  "registry_laws sample_registry to_ascii_lowercase sample_table sample_catalogs sample_catalog_table"
  by (auto simp: registry_laws_def sample_registry_def sample_table_def sample_catalogs_def
      sample_catalog_table_def fun_eq_iff split: if_splits)

text \<open>One source with the tables \<open>public.my_pg_table\<close> and \<open>audit.my_pg_table\<close>.\<close>

definition no_client :: "nat pg_client" where
  "no_client = \<lparr>query = (\<lambda>_. Inl []), query_one = (\<lambda>_. Inl []), try_get = (\<lambda>_ _. Inl [])\<rparr>"

definition sample_source :: postgres_source where
  "sample_source = postgres_source_new ''crm'' ''postgres://db'' [''public'', ''audit'']"

definition sample_info :: "info_row list" where
  "sample_info =
     [(''audit'', ''my_pg_table'', ''id'', ''bigint'', ''int8'', ''NO''),
      (''public'', ''my_pg_table'', ''id'', ''bigint'', ''int8'', ''NO'')]"

definition sample_start :: "start_error + (nat, nat) sample_session" where
  "sample_start = register_postgres_sources sample_registry (\<lambda>_. Inr no_client) (\<lambda>_ _ _. Inr sample_info)
     ([], []) [sample_source] True"


text \<open>C30: A statement's placeholder types come in the order of their numbers: there is one entry per
  number up to the highest placeholder the statement names, each is the type inferred under that
  number, and a number without an inferred type has none. The length is the highest number, not the
  count of placeholders, and no bound is checked.\<close>

theorem placeholder_types_ordered:
  assumes "distinct (List.map_filter (\<lambda>e. index_of (fst e)) types)"
  shows "length (ordered_param_types ids types) =
      Max (insert 0 {n. \<exists>i \<in> set ids \<union> fst ` set types. index_of i = Some n}) \<and>
    (\<forall>(i, dt) \<in> set types. \<forall>n. index_of i = Some (Suc n) \<longrightarrow> ordered_param_types ids types ! n = dt) \<and>
    (\<forall>n < length (ordered_param_types ids types).
       (\<forall>i \<in> fst ` set types. index_of i \<noteq> Some (Suc n)) \<longrightarrow> ordered_param_types ids types ! n = None)"
proof -
  let ?c = "placeholder_count (ids @ map fst types)"
  let ?o = "ordered_param_types ids types"
  have len: "length ?o = ?c" by (simp add: ordered_param_types_def Let_def)
  have nth: "?o ! k = (case numbered (Suc k) types of Some dt \<Rightarrow> dt | None \<Rightarrow> None)" if "k < ?c" for k
    using put_types_nth [OF assms that, of "replicate ?c None"] that
    by (simp add: ordered_param_types_def Let_def cong: option.case_cong)
  have num: "numbered (Suc n) types = Some dt" if "(i, dt) \<in> set types" "index_of i = Some (Suc n)" for i dt n
    using assms that
    by (induction types) (force simp: List.map_filter_simps List.map_filter_def split: option.splits if_splits)+
  have "?o ! n = dt" if "(i, dt) \<in> set types" "index_of i = Some (Suc n)" for i dt n
  proof -
    have "i \<in> set (ids @ map fst types)" using that(1) by force
    with placeholder_count_ge that(2) have "Suc n \<le> ?c" by blast
    with nth [of n] num [OF that] show ?thesis by simp
  qed
  moreover have "?o ! n = None" if "n < ?c" "\<forall>i \<in> fst ` set types. index_of i \<noteq> Some (Suc n)" for n
    using that nth [OF that(1)] by (force simp: numbered_None [THEN iffD2])
  ultimately show ?thesis
    using len placeholder_count_Max [of "ids @ map fst types"] by auto
qed

definition dollar :: "nat \<Rightarrow> string" where
  "dollar n = CHR ''$'' # show_nat n"

lemma index_of_dollar: "n < 2 ^ 64 \<Longrightarrow> index_of (dollar n) = Some n"
  by (simp add: index_of_def dollar_def)

lemma placeholder_types_ordered_witness:
  "ordered_param_types [dollar 3, dollar 1, ''$name''] [(dollar 3, Some Int64), (dollar 1, Some Utf8)] ! 2 = Some Int64"
proof -
  have i: "index_of (dollar 3) = Some 3" "index_of (dollar 1) = Some 1"
    by (simp_all add: index_of_dollar)
  then have "distinct (List.map_filter (\<lambda>e. index_of (fst e)) [(dollar 3, Some Int64), (dollar 1, Some Utf8)])"
    by (simp add: List.map_filter_def)
  from placeholder_types_ordered [OF this, of "[dollar 3, dollar 1, ''$name'']"] i
  show ?thesis by (simp add: numeral_2_eq_2 numeral_3_eq_3)
qed

end
