(* ===== verification/Introspect.thy ===== *)
theory Introspect
  imports Catalog_Spec
begin

text \<open>
  The introspection query of \<open>src/catalog.rs\<close> and what introspection finds with it.

  \<open>introspect_sql\<close> is the statement \<open>INTROSPECT_SQL\<close>: the join of \<open>information_schema.columns\<close> with
  \<open>information_schema.tables\<close>, its conditions, its order and its select list. With the answer
  PostgreSQL gives to it the columns of a table are adjacent, which the grouping relies on, and
  introspection finds exactly the tables it is asked for (\<open>introspection_complete\<close>).
\<close>

subsection \<open>The query\<close>

record pg_column =
  pc_schema :: string
  pc_table :: string
  pc_name :: string
  pc_ordinal :: nat
  pc_data_type :: string
  pc_udt_name :: string
  pc_is_nullable :: string

record pg_relation =
  pr_schema :: string
  pr_name :: string
  pr_type :: string

record information_schema =
  is_columns :: "pg_column list"
  is_tables :: "pg_relation list"

definition introspect_where :: "string list \<Rightarrow> string list option \<Rightarrow> pg_column \<times> pg_relation \<Rightarrow> bool" where
  "introspect_where schemas tables = (\<lambda>(c, t).
     pc_schema c = pr_schema t \<and> pc_table c = pr_name t \<and> pr_type t = ''BASE TABLE'' \<and>
     pc_schema c \<in> set schemas \<and>
     (case tables of None \<Rightarrow> True | Some names \<Rightarrow> pc_table c \<in> set names))"

definition introspect_order :: "pg_column \<Rightarrow> string \<times> string \<times> nat" where
  "introspect_order c = (pc_schema c, pc_table c, pc_ordinal c)"

definition introspect_select :: "pg_column \<Rightarrow> info_row" where
  "introspect_select c =
     (pc_schema c, pc_table c, pc_name c, pc_data_type c, pc_udt_name c, pc_is_nullable c)"

definition introspect_sql :: "information_schema \<Rightarrow> string list \<Rightarrow> string list option \<Rightarrow> info_row list" where
  "introspect_sql db schemas tables =
     map introspect_select
       (sort_key introspect_order
         (map fst (filter (introspect_where schemas tables) (List.product (is_columns db) (is_tables db)))))"

subsection \<open>Its answer\<close>

definition base_table :: "information_schema \<Rightarrow> string \<times> string \<Rightarrow> bool" where
  "base_table db k \<longleftrightarrow> (\<exists>t \<in> set (is_tables db). (pr_schema t, pr_name t) = k \<and> pr_type t = ''BASE TABLE'')"

definition wanted :: "information_schema \<Rightarrow> string list \<Rightarrow> string list option \<Rightarrow> string \<times> string \<Rightarrow> bool" where
  "wanted db schemas tables k \<longleftrightarrow> base_table db k \<and> fst k \<in> set schemas \<and>
     (case tables of None \<Rightarrow> True | Some names \<Rightarrow> snd k \<in> set names)"

text \<open>A relation is listed once.\<close>

definition keyed :: "information_schema \<Rightarrow> bool" where
  "keyed db \<longleftrightarrow> distinct (map (\<lambda>t. (pr_schema t, pr_name t)) (is_tables db))"

definition column_key :: "pg_column \<Rightarrow> string \<times> string" where
  "column_key c = (pc_schema c, pc_table c)"

text \<open>The columns of a table in their ordinal order, as the program reads them.\<close>

definition table_columns :: "information_schema \<Rightarrow> string \<times> string \<Rightarrow> pg_column list" where
  "table_columns db k = sort_key pc_ordinal (filter (\<lambda>c. column_key c = k) (is_columns db))"

definition readable_fields :: "information_schema \<Rightarrow> string \<times> string \<Rightarrow> field list" where
  "readable_fields db k = List.map_filter (\<lambda>c. readable (column_info_of (introspect_select c))) (table_columns db k)"

lemma filter_at_most_one:
  assumes "distinct (map f ts)" and "\<And>t. P t \<Longrightarrow> f t = k"
  shows "map (\<lambda>_. c) (filter P ts) = (if \<exists>t \<in> set ts. P t then [c] else [])"
  using assms
proof (induction ts)
  case (Cons t ts)
  then have "P t \<Longrightarrow> filter P ts = []" by (force simp: filter_empty_conv)
  with Cons show ?case by auto
qed simp

lemma join_columns:
  assumes "keyed db"
  shows "map fst (filter (introspect_where schemas tables) (List.product cs (is_tables db))) =
    filter (\<lambda>c. wanted db schemas tables (column_key c)) cs"
proof (induction cs)
  case (Cons c cs)
  have "map fst (filter (introspect_where schemas tables) (map (Pair c) (is_tables db))) =
      map (\<lambda>_. c) (filter (\<lambda>t. introspect_where schemas tables (c, t)) (is_tables db))"
    by (simp add: filter_map o_def)
  also have "\<dots> = (if \<exists>t \<in> set (is_tables db). introspect_where schemas tables (c, t) then [c] else [])"
    using assms unfolding keyed_def
    by (rule filter_at_most_one [where k = "column_key c"]) (auto simp: introspect_where_def column_key_def)
  also have "(\<exists>t \<in> set (is_tables db). introspect_where schemas tables (c, t)) = wanted db schemas tables (column_key c)"
    unfolding introspect_where_def wanted_def base_table_def column_key_def prod.case prod.inject fst_conv snd_conv
    by metis
  finally show ?case using Cons by simp
qed simp

lemma sorted_adjacent: "sorted xs \<Longrightarrow> distinct (remdups_adj xs)"
proof (induction xs rule: remdups_adj.induct)
  case (3 x y xs)
  then show ?case by (cases "x = y") (auto simp: order.antisym)
qed simp_all

lemma insort_key_cong:
  "\<forall>y \<in> set ys. f x \<le> f y \<longleftrightarrow> g x \<le> g y \<Longrightarrow> insort_key f x ys = insort_key g x ys"
  by (induction ys) auto

lemma sort_key_cong_order:
  "\<forall>x \<in> set xs. \<forall>y \<in> set xs. f x \<le> f y \<longleftrightarrow> g x \<le> g y \<Longrightarrow> sort_key f xs = sort_key g xs"
proof (induction xs)
  case (Cons x xs)
  then have "insort_key f x (sort_key g xs) = insort_key g x (sort_key g xs)"
    by (intro insort_key_cong) auto
  with Cons show ?case by simp
qed simp

lemma filter_sort_columns:
  "filter (\<lambda>c. column_key c = k) (sort_key introspect_order cs) = sort_key pc_ordinal (filter (\<lambda>c. column_key c = k) cs)"
  unfolding filter_sort
  by (rule sort_key_cong_order) (auto simp: introspect_order_def column_key_def less_eq_prod_def)

text \<open>The columns as the program receives them.\<close>

definition received :: "information_schema \<Rightarrow> string list \<Rightarrow> string list option \<Rightarrow> column_info list" where
  "received db schemas tables = map column_info_of (introspect_sql db schemas tables)"

lemma received_columns:
  assumes "keyed db"
  shows "received db schemas tables = map (\<lambda>c. column_info_of (introspect_select c))
     (sort_key introspect_order (filter (\<lambda>c. wanted db schemas tables (column_key c)) (is_columns db)))"
  by (simp add: received_def introspect_sql_def join_columns [OF assms])

lemma table_key_received [simp]: "table_key (column_info_of (introspect_select c)) = column_key c"
  by (simp add: table_key_def column_info_of_def introspect_select_def column_key_def)

lemma received_adjacent: "keyed db \<Longrightarrow> adjacent (received db schemas tables)"
proof -
  assume "keyed db"
  let ?cs = "sort_key introspect_order (filter (\<lambda>c. wanted db schemas tables (column_key c)) (is_columns db))"
  have "sorted (map introspect_order ?cs)" by simp
  then have "sorted (map column_key ?cs)"
    unfolding sorted_map
    by (rule sorted_wrt_mono_rel [rotated]) (auto simp: introspect_order_def column_key_def less_eq_prod_def)
  then show ?thesis
    using sorted_adjacent by (simp add: received_columns [OF \<open>keyed db\<close>] adjacent_def o_def)
qed

lemma received_keys:
  "keyed db \<Longrightarrow> set (map table_key (received db schemas tables)) =
     {k. wanted db schemas tables k \<and> (\<exists>c \<in> set (is_columns db). column_key c = k)}"
  by (force simp: received_columns image_iff)

lemma received_fields:
  assumes "keyed db" and "wanted db schemas tables k"
  shows "fields_of k (received db schemas tables) = readable_fields db k"
proof -
  let ?cs = "filter (\<lambda>c. wanted db schemas tables (column_key c)) (is_columns db)"
  have "filter (\<lambda>c. column_key c = k) ?cs = filter (\<lambda>c. column_key c = k) (is_columns db)"
    using assms(2) by (auto intro: filter_cong)
  then have "filter (\<lambda>c. column_key c = k) (sort_key introspect_order ?cs) = table_columns db k"
    by (simp add: filter_sort_columns table_columns_def)
  then show ?thesis
    by (simp add: fields_of_def received_columns [OF assms(1)] filter_map o_def readable_fields_def
        map_filter_def cong: map_cong)
qed

lemma no_columns_no_fields: "readable_fields db k \<noteq> [] \<Longrightarrow> \<exists>c \<in> set (is_columns db). column_key c = k"
  by (rule ccontr) (simp add: readable_fields_def table_columns_def map_filter_simps)

lemma nonempty_keys:
  "(\<lambda>t. (t_schema t, t_name t)) ` set (filter (\<lambda>t. t_fields t \<noteq> []) (map (table_of cs) ks)) =
     {k \<in> set ks. fields_of k cs \<noteq> []}"
  by (induction ks) (auto simp: table_of_def)

lemma grouped_tables:
  assumes "keyed db" and ts_def: "ts = group_columns_into_tables (received db schemas tables)"
  shows "distinct (map (\<lambda>t. (t_schema t, t_name t)) ts)"
    and "(\<lambda>t. (t_schema t, t_name t)) ` set ts = {k. wanted db schemas tables k \<and> readable_fields db k \<noteq> []}"
    and "\<forall>t \<in> set ts. t_fields t = readable_fields db (t_schema t, t_name t)"
proof -
  let ?cs = "received db schemas tables"
  let ?ks = "remdups_adj (map table_key ?cs)"
  note adj = received_adjacent [OF assms(1)]
  have ts: "ts = filter (\<lambda>t. t_fields t \<noteq> []) (map (table_of ?cs) ?ks)"
    unfolding ts_def by (rule grouping_exact [OF adj])
  have keys: "map (\<lambda>t. (t_schema t, t_name t)) (map (table_of ?cs) ks) = ks" for ks
    by (induction ks) (simp_all add: table_of_def)
  have "distinct (map (\<lambda>t. (t_schema t, t_name t)) (map (table_of ?cs) ?ks))"
    unfolding keys using adj by (simp add: adjacent_def)
  then show "distinct (map (\<lambda>t. (t_schema t, t_name t)) ts)"
    unfolding ts by (rule distinct_map_filter)
  have fields: "fields_of k ?cs = readable_fields db k" if "k \<in> set ?ks" for k
    using that received_keys [OF assms(1)] received_fields [OF assms(1)] by auto
  then show "\<forall>t \<in> set ts. t_fields t = readable_fields db (t_schema t, t_name t)"
    by (auto simp: ts table_of_def)
  have "(\<lambda>t. (t_schema t, t_name t)) ` set ts = {k \<in> set ?ks. fields_of k ?cs \<noteq> []}"
    unfolding ts by (rule nonempty_keys)
  also have "\<dots> = {k \<in> set ?ks. readable_fields db k \<noteq> []}"
    using fields by (intro Collect_cong conj_cong refl) (simp only:)
  also have "set ?ks = {k. wanted db schemas tables k \<and> (\<exists>c \<in> set (is_columns db). column_key c = k)}"
    unfolding remdups_adj_set by (rule received_keys [OF assms(1)])
  finally show "(\<lambda>t. (t_schema t, t_name t)) ` set ts = {k. wanted db schemas tables k \<and> readable_fields db k \<noteq> []}"
    using no_columns_no_fields by blast
qed

subsection \<open>Properties\<close>

text \<open>C17: Introspection finds exactly what it is asked for. When PostgreSQL answers the introspection
  query as the query reads, the result has one table for each base table that lies in a requested
  schema, passes the allowlist when there is one, and has a column of a supported type, and no
  other table, views included; each has exactly its readable columns, in ordinal order; and they
  come by the priority of their schemas, then by name.\<close>

theorem introspection_complete:
  assumes "keyed db"
  shows "\<exists>ts warned. introspect_tables (\<lambda>s a. Inr (introspect_sql db s a)) schemas allow = Inr (ts, warned) \<and>
    distinct (map (\<lambda>t. (t_schema t, t_name t)) ts) \<and>
    (\<lambda>t. (t_schema t, t_name t)) ` set ts = {k. wanted db schemas allow k \<and> readable_fields db k \<noteq> []} \<and>
    (\<forall>t \<in> set ts. t_fields t = readable_fields db (t_schema t, t_name t)) \<and>
    sorted (map (\<lambda>t. (schema_rank schemas (t_schema t), t_name t)) ts)"
proof (intro exI conjI)
  let ?g = "group_columns_into_tables (received db schemas allow)"
  let ?ts = "order_by_schema_priority ?g schemas"
  note g = grouped_tables [OF assms refl, of schemas allow]
  have perm: "mset ?ts = mset ?g" by (simp add: order_by_schema_priority_def)
  then have set: "set ?ts = set ?g" by (rule mset_eq_setD)
  show "introspect_tables (\<lambda>s a. Inr (introspect_sql db s a)) schemas allow =
      Inr (?ts, case allow of Some ns \<Rightarrow> warn_unmatched_allowlist ns ?ts | None \<Rightarrow> [])"
    by (simp add: introspect_tables_def Let_def received_def cong: option.case_cong)
  have "mset (map (\<lambda>t. (t_schema t, t_name t)) ?ts) = mset (map (\<lambda>t. (t_schema t, t_name t)) ?g)"
    by (simp only: mset_map perm)
  with g(1) show "distinct (map (\<lambda>t. (t_schema t, t_name t)) ?ts)"
    by (metis mset_eq_imp_distinct_iff)
  show "(\<lambda>t. (t_schema t, t_name t)) ` set ?ts = {k. wanted db schemas allow k \<and> readable_fields db k \<noteq> []}"
    unfolding set by (rule g(2))
  show "\<forall>t \<in> set ?ts. t_fields t = readable_fields db (t_schema t, t_name t)"
    unfolding set by (rule g(3))
  show "sorted (map (\<lambda>t. (schema_rank schemas (t_schema t), t_name t)) ?ts)"
    by (simp add: order_by_schema_priority_def)
qed

definition sample_db :: information_schema where
  "sample_db =
     \<lparr>is_columns =
        [\<lparr>pc_schema = ''public'', pc_table = ''users'', pc_name = ''doc'', pc_ordinal = 2, pc_data_type = ''json'',
          pc_udt_name = ''json'', pc_is_nullable = ''YES''\<rparr>,
         \<lparr>pc_schema = ''public'', pc_table = ''recent'', pc_name = ''id'', pc_ordinal = 1, pc_data_type = ''integer'',
          pc_udt_name = ''int4'', pc_is_nullable = ''YES''\<rparr>,
         \<lparr>pc_schema = ''public'', pc_table = ''users'', pc_name = ''id'', pc_ordinal = 1, pc_data_type = ''integer'',
          pc_udt_name = ''int4'', pc_is_nullable = ''NO''\<rparr>],
      is_tables =
        [\<lparr>pr_schema = ''public'', pr_name = ''recent'', pr_type = ''VIEW''\<rparr>,
         \<lparr>pr_schema = ''public'', pr_name = ''users'', pr_type = ''BASE TABLE''\<rparr>]\<rparr>"

lemma introspection_complete_witness:
  "\<exists>ts warned. introspect_tables (\<lambda>s a. Inr (introspect_sql sample_db s a)) [''public''] None = Inr (ts, warned) \<and>
     (\<lambda>t. (t_schema t, t_name t)) ` set ts = {(''public'', ''users'')}"
proof -
  have k: "keyed sample_db" by code_simp
  have "map f_name (readable_fields sample_db (''public'', ''users'')) = [''id'', ''doc'']" by code_simp
  then have "readable_fields sample_db (''public'', ''users'') \<noteq> []" by auto
  moreover have "wanted sample_db [''public''] None k \<longleftrightarrow> k = (''public'', ''users'')" for k
    by (auto simp: wanted_def base_table_def sample_db_def)
  ultimately have "{k. wanted sample_db [''public''] None k \<and> readable_fields sample_db k \<noteq> []} = {(''public'', ''users'')}"
    by auto
  with introspection_complete [OF k, of "[''public'']" None] show ?thesis by metis
qed

end
