(* ===== verification/Start_Spec.thy ===== *)
theory Start_Spec
  imports Engine_Spec Introspect
begin

text \<open>
  From the catalog of a source to the tables a client can name: introspection
  (\<open>src/catalog.rs\<close>) and registration (\<open>src/datafusion_engine.rs\<close>) together. The connections answer
  the introspection query as it reads (\<open>introspect_sql\<close>), each over its own \<open>information_schema\<close>.
\<close>

subsection \<open>One source\<close>

text \<open>The table that introspection makes of \<open>schema.name\<close>.\<close>

definition found_table :: "information_schema \<Rightarrow> string \<Rightarrow> string \<Rightarrow> table_schema" where
  "found_table db sch n = \<lparr>t_schema = sch, t_name = n, t_fields = readable_fields db (sch, n)\<rparr>"

definition offered :: "information_schema \<Rightarrow> postgres_source \<Rightarrow> string \<Rightarrow> string \<Rightarrow> bool" where
  "offered db src sch n \<longleftrightarrow>
     wanted db (src_schemas src) (src_tables src) (sch, n) \<and> readable_fields db (sch, n) \<noteq> []"

definition answer_info ::
  "('cell pg_client \<Rightarrow> information_schema) \<Rightarrow> 'cell pg_client \<Rightarrow> string list \<Rightarrow> string list option \<Rightarrow>
   string + info_row list" where
  "answer_info db cl schemas allow = Inr (introspect_sql (db cl) schemas allow)"

lemma introspected_set:
  "introspect_tables (answer_info db cl) schemas allow = Inr (ts, warned) \<Longrightarrow>
   set ts = set (group_columns_into_tables (received (db cl) schemas allow))"
proof -
  let ?g = "group_columns_into_tables (received (db cl) schemas allow)"
  assume "introspect_tables (answer_info db cl) schemas allow = Inr (ts, warned)"
  then have "ts = order_by_schema_priority ?g schemas"
    by (simp add: introspect_tables_def answer_info_def Let_def received_def cong: option.case_cong)
  then have "mset ts = mset ?g" by (simp add: order_by_schema_priority_def)
  then show ?thesis by (rule mset_eq_setD)
qed

lemma introspected_tables:
  assumes "keyed (db cl)"
    and "introspect_tables (answer_info db cl) (src_schemas src) (src_tables src) = Inr (ts, warned)"
  shows "t \<in> set ts \<longleftrightarrow>
     t = found_table (db cl) (t_schema t) (t_name t) \<and> offered (db cl) src (t_schema t) (t_name t)"
proof -
  note g = grouped_tables [OF assms(1) refl, of "src_schemas src" "src_tables src",
      folded introspected_set [OF assms(2)]]
  have eq: "u = found_table (db cl) (t_schema u) (t_name u)" if "u \<in> set ts" for u
    using g(3) that by (simp add: found_table_def)
  show ?thesis
  proof
    assume "t \<in> set ts"
    with g(2) have "(t_schema t, t_name t) \<in>
        {k. wanted (db cl) (src_schemas src) (src_tables src) k \<and> readable_fields (db cl) k \<noteq> []}" by blast
    with eq [OF \<open>t \<in> set ts\<close>] show "t = found_table (db cl) (t_schema t) (t_name t) \<and>
        offered (db cl) src (t_schema t) (t_name t)" by (simp add: offered_def)
  next
    assume t: "t = found_table (db cl) (t_schema t) (t_name t) \<and> offered (db cl) src (t_schema t) (t_name t)"
    then have "(t_schema t, t_name t) \<in> (\<lambda>t. (t_schema t, t_name t)) ` set ts"
      unfolding g(2) by (simp add: offered_def)
    then obtain u where "u \<in> set ts" "t_schema u = t_schema t" "t_name u = t_name t" by auto
    with eq [of u] t show "t \<in> set ts" by metis
  qed
qed

lemma readable_scannable: "list_all scannable (readable_fields db k)"
  by (auto simp: readable_fields_def map_filter_def list_all_iff readable_def column_field_scannable)

subsection \<open>Properties\<close>


text \<open>A source whose \<open>users\<close> is a base table and whose \<open>recent\<close> is a view.\<close>

definition sample_offer :: "start_error + (nat, nat) sample_session" where
  "sample_offer = register_postgres_sources sample_registry (\<lambda>_. Inr no_client)
     (answer_info (\<lambda>_. sample_db)) ([], []) [sample_source] True"


end
