(* ===== verification/Server.thy ===== *)
theory Server
  imports Engine Wire Cache_Spec
begin

text \<open>
  \<open>src/server.rs\<close>: row encoding and the handlers of the simple and the extended query protocol.

  The wire library's row encoder is the record \<open>row_encoder\<close> with its state as a type variable;
  \<open>date_ok\<close> says which day counts chrono can turn into a date. A handler runs on the shared
  engine and cache. It gives up control while the engine works, so its parts before and after
  are functions of their own (\<open>serve_lookup\<close>, \<open>simple_finish\<close>, \<open>extended_finish\<close>), which the
  handler composes. The clock readings of the cache's \<open>get\<close> and \<open>set\<close> are arguments.
\<close>

subsection \<open>Row encoding\<close>

record field_info =
  fi_name :: string
  fi_type :: pg_type
  fi_is_text :: bool

record ('enc, 'row) row_encoder =
  new_encoder :: "field_info list \<Rightarrow> 'enc"
  encode_field :: "'enc \<Rightarrow> rust_value option \<Rightarrow> pgwire_error + 'enc"
  finish_row :: "'enc \<Rightarrow> pgwire_error + 'row"
  date_ok :: "int \<Rightarrow> bool"

datatype 'row response = Execution string nat | QueryRows "field_info list" "'row list"

text \<open>\<open>array.value(row)\<close> of an array of the scalar's type, \<open>None\<close> where the array is null.\<close>

fun primitive_value :: "scalar \<Rightarrow> rust_value option" where
  "primitive_value (SInt16 v) = map_option V_int v"
| "primitive_value (SInt32 v) = map_option V_int v"
| "primitive_value (SInt64 v) = map_option V_int v"
| "primitive_value (SFloat32 v) = map_option V_f32 v"
| "primitive_value (SFloat64 v) = map_option V_f64 v"
| "primitive_value (SUtf8 v) = map_option V_text v"
| "primitive_value (SBoolean v) = map_option V_bool v"
| "primitive_value (SDate32 v) = map_option V_days v"
| "primitive_value (STimestampNanosecond v tz) = map_option V_nanos v"
| "primitive_value _ = None"

definition encode_cell ::
  "('enc, 'row) row_encoder \<Rightarrow> 'enc \<Rightarrow> data_type \<times> scalar list \<Rightarrow> nat \<Rightarrow> pgwire_error + 'enc" where
  "encode_cell w enc arr row =
     (let v = primitive_value (snd arr ! row)
      in case fst arr of
           Int16 \<Rightarrow> encode_field w enc v
         | Int32 \<Rightarrow> encode_field w enc v
         | Int64 \<Rightarrow> encode_field w enc v
         | Float32 \<Rightarrow> encode_field w enc v
         | Float64 \<Rightarrow> encode_field w enc v
         | Utf8 \<Rightarrow> encode_field w enc v
         | Boolean \<Rightarrow> encode_field w enc v
         | Date32 \<Rightarrow>
             (case v of
                Some (V_days d) \<Rightarrow>
                  if date_ok w d then encode_field w enc v else Inl (user_error DateOutOfRange)
              | _ \<Rightarrow> encode_field w enc None)
         | Timestamp Nanosecond tz \<Rightarrow> encode_field w enc v
         | other \<Rightarrow> Inl (user_error (UnhandledColumn other)))"

fun encode_columns ::
  "('enc, 'row) row_encoder \<Rightarrow> 'enc \<Rightarrow> (data_type \<times> scalar list) list \<Rightarrow> nat \<Rightarrow> pgwire_error + 'enc" where
  "encode_columns w enc [] row = Inr enc"
| "encode_columns w enc (arr # arrs) row =
     and_then (encode_cell w enc arr row) (\<lambda>enc. encode_columns w enc arrs row)"

definition encode_row :: "('enc, 'row) row_encoder \<Rightarrow> field_info list \<Rightarrow> batch \<Rightarrow> nat \<Rightarrow> pgwire_error + 'row" where
  "encode_row w fis b row =
     and_then (encode_columns w (new_encoder w fis) (b_columns b) row) (finish_row w)"

definition encode_batch_rows ::
  "('enc, 'row) row_encoder \<Rightarrow> field_info list \<Rightarrow> batch \<Rightarrow> pgwire_error + 'row list" where
  "encode_batch_rows w fis b = collect_result (encode_row w fis b) [0..<b_rows b]"

definition field_info_of :: "(nat \<Rightarrow> bool) \<Rightarrow> nat \<times> field \<Rightarrow> pgwire_error + field_info" where
  "field_info_of is_text = (\<lambda>(idx, f).
     and_then (map_arrow_type (f_type f)) (\<lambda>t.
     Inr \<lparr>fi_name = f_name f, fi_type = t, fi_is_text = is_text idx\<rparr>))"

definition schema_to_field_infos :: "schema \<Rightarrow> (nat \<Rightarrow> bool) \<Rightarrow> pgwire_error + field_info list" where
  "schema_to_field_infos sch is_text = collect_result (field_info_of is_text) (enumerate 0 sch)"

definition batches_to_response_in_format ::
  "('enc, 'row) row_encoder \<Rightarrow> batch list \<Rightarrow> (nat \<Rightarrow> bool) \<Rightarrow> pgwire_error + 'row response" where
  "batches_to_response_in_format w bs is_text =
     (case bs of
        [] \<Rightarrow> Inr (Execution ''SELECT'' 0)
      | first # _ \<Rightarrow>
          and_then (schema_to_field_infos (b_schema first) is_text) (\<lambda>fis.
          and_then (collect_result (encode_batch_rows w fis) bs) (\<lambda>rows.
          Inr (QueryRows fis (concat rows)))))"

definition all_text :: "nat \<Rightarrow> bool" where
  "all_text idx = True"

definition batches_to_response :: "('enc, 'row) row_encoder \<Rightarrow> batch list \<Rightarrow> pgwire_error + 'row response" where
  "batches_to_response w bs = batches_to_response_in_format w bs all_text"

subsection \<open>Cacheability\<close>

definition leading_keyword :: "string \<Rightarrow> string" where
  "leading_keyword q = concat (takeWhile (byte_char is_ascii_alphabetic) (chars (trim_start q)))"

definition is_cacheable :: "string \<Rightarrow> bool" where
  "is_cacheable q \<longleftrightarrow>
     eq_ignore_ascii_case (leading_keyword q) ''SELECT'' \<or> eq_ignore_ascii_case (leading_keyword q) ''WITH''"

subsection \<open>The handlers\<close>

record ('s, 'df, 'enc, 'row) server_env =
  session_api :: "('s, 'df) session"
  sql_parser :: "string \<Rightarrow> string list option"
  encoder :: "('enc, 'row) row_encoder"
  param_decoders :: decoders

record 's server =
  sv_session :: 's
  sv_cache :: "batch list cache"

definition serve_lookup ::
  "('s, 'df, 'enc, 'row) server_env \<Rightarrow> bool \<Rightarrow> 's server \<Rightarrow> nat \<Rightarrow> string \<Rightarrow> batch list option \<times> 's server" where
  "serve_lookup env cacheable sv now sql =
     (if cacheable
      then (case cache_get (sql_parser env) (sv_cache sv) now sql of
              (hit, c) \<Rightarrow> (hit, sv\<lparr>sv_cache := c\<rparr>))
      else (None, sv))"

definition serve_store ::
  "('s, 'df, 'enc, 'row) server_env \<Rightarrow> bool \<Rightarrow> 's server \<Rightarrow> nat \<Rightarrow> string \<Rightarrow> batch list \<Rightarrow> 's server" where
  "serve_store env cacheable sv now sql bs =
     (if cacheable then sv\<lparr>sv_cache := cache_set (sql_parser env) (sv_cache sv) now sql bs\<rparr> else sv)"

definition simple_finish ::
  "('s, 'df, 'enc, 'row) server_env \<Rightarrow> 's server \<Rightarrow> nat \<Rightarrow> string \<Rightarrow> igloo_error + batch list \<Rightarrow>
   (pgwire_error + 'row response list) \<times> 's server" where
  "simple_finish env sv now sql result =
     (case result of
        Inl e \<Rightarrow> (Inl (user_error (EngineError e)), sv)
      | Inr bs \<Rightarrow>
          (case batches_to_response (encoder env) bs of
             Inl e \<Rightarrow> (Inl e, sv)
           | Inr response \<Rightarrow> (Inr [response], serve_store env (is_cacheable sql) sv now sql bs)))"

definition simple_do_query ::
  "('s, 'df, 'enc, 'row) server_env \<Rightarrow> 's server \<Rightarrow> nat \<Rightarrow> nat \<Rightarrow> string \<Rightarrow>
   (pgwire_error + 'row response list) \<times> 's server" where
  "simple_do_query env sv now later sql =
     (case serve_lookup env (is_cacheable sql) sv now sql of
        (Some bs, sv) \<Rightarrow>
          (and_then (batches_to_response (encoder env) bs) (\<lambda>response. Inr [response]), sv)
      | (None, sv) \<Rightarrow>
          (case engine_query (session_api env) (sv_session sv) sql of
             (result, s) \<Rightarrow> simple_finish env (sv\<lparr>sv_session := s\<rparr>) later sql result))"

text \<open>The extended protocol: \<open>Execute\<close> of a portal. Here the result is stored before it is
  converted.\<close>

definition portal_cacheable :: "portal \<Rightarrow> bool" where
  "portal_cacheable p \<longleftrightarrow> length (p_parameters p) = 0 \<and> is_cacheable (p_sql p)"

definition portal_params ::
  "('s, 'df, 'enc, 'row) server_env \<Rightarrow> 's \<Rightarrow> portal \<Rightarrow> (pgwire_error + scalar list) \<times> 's" where
  "portal_params env s p =
     (if length (p_parameters p) = 0 then (Inr [], s)
      else (case describe_query (session_api env) s (p_sql p) of
              (Inl e, s) \<Rightarrow> (Inl (user_error (EngineError e)), s)
            | (Inr d, s) \<Rightarrow> (decode_portal_params (param_decoders env) p (d_param_types d), s)))"

definition extended_finish ::
  "('s, 'df, 'enc, 'row) server_env \<Rightarrow> 's server \<Rightarrow> nat \<Rightarrow> portal \<Rightarrow> igloo_error + batch list \<Rightarrow>
   (pgwire_error + 'row response) \<times> 's server" where
  "extended_finish env sv now p result =
     (case result of
        Inl e \<Rightarrow> (Inl (user_error (EngineError e)), sv)
      | Inr bs \<Rightarrow>
          (batches_to_response_in_format (encoder env) bs (p_result_is_text p),
           serve_store env (portal_cacheable p) sv now (p_sql p) bs))"

definition extended_do_query ::
  "('s, 'df, 'enc, 'row) server_env \<Rightarrow> 's server \<Rightarrow> nat \<Rightarrow> nat \<Rightarrow> portal \<Rightarrow>
   (pgwire_error + 'row response) \<times> 's server" where
  "extended_do_query env sv now later p =
     (case serve_lookup env (portal_cacheable p) sv now (p_sql p) of
        (Some bs, sv) \<Rightarrow> (batches_to_response_in_format (encoder env) bs (p_result_is_text p), sv)
      | (None, sv) \<Rightarrow>
          (case portal_params env (sv_session sv) p of
             (Inl e, s) \<Rightarrow> (Inl e, sv\<lparr>sv_session := s\<rparr>)
           | (Inr params, s) \<Rightarrow>
               (case engine_query_with_params (session_api env) s (p_sql p) params of
                  (result, s) \<Rightarrow> extended_finish env (sv\<lparr>sv_session := s\<rparr>) later p result)))"

definition do_describe_statement ::
  "('s, 'df, 'enc, 'row) server_env \<Rightarrow> 's \<Rightarrow> string \<Rightarrow> pg_type list \<Rightarrow>
   (pgwire_error + pg_type list \<times> field_info list) \<times> 's" where
  "do_describe_statement env s sql declared =
     (case describe_query (session_api env) s sql of
        (Inl e, s) \<Rightarrow> (Inl (user_error (EngineError e)), s)
      | (Inr d, s) \<Rightarrow>
          (and_then (schema_to_field_infos (d_schema d) all_text) (\<lambda>fis.
           Inr (describe_parameters declared (d_param_types d), fis)), s))"

definition do_describe_portal ::
  "('s, 'df, 'enc, 'row) server_env \<Rightarrow> 's \<Rightarrow> portal \<Rightarrow> (pgwire_error + field_info list) \<times> 's" where
  "do_describe_portal env s p =
     (case describe_query (session_api env) s (p_sql p) of
        (Inl e, s) \<Rightarrow> (Inl (user_error (EngineError e)), s)
      | (Inr d, s) \<Rightarrow> (schema_to_field_infos (d_schema d) (p_result_is_text p), s))"

subsection \<open>The accept loop\<close>

text \<open>\<open>accept_loop\<close> reads the results of \<open>accept\<close> in their order: the connections it spawned, and
  the error that ended it. Without one it still waits. A spawned connection runs on its own.\<close>

fun accept_loop :: "(string + 'sock) list \<Rightarrow> 'sock list \<times> igloo_error option" where
  "accept_loop [] = ([], None)"
| "accept_loop (Inl e # rest) = ([], Some (EIo e))"
| "accept_loop (Inr sock # rest) = (case accept_loop rest of (spawned, r) \<Rightarrow> (sock # spawned, r))"

text \<open>The listener's own address is asked for when the message with it is logged.\<close>

definition serve_with_listener ::
  "(string + 'addr) option \<Rightarrow> (string + 'sock) list \<Rightarrow> 'sock list \<times> igloo_error option" where
  "serve_with_listener logged_addr accepts =
     (case logged_addr of
        Some (Inl e) \<Rightarrow> ([], Some (EIo e))
      | _ \<Rightarrow> accept_loop accepts)"

lemma accept_loop_ends: "accept_loop (map Inr socks @ Inl e # rest) = (socks, Some (EIo e))"
  by (induction socks) simp_all

lemma accept_loop_serves: "snd (accept_loop rs) = None \<longleftrightarrow> (\<exists>socks. rs = map Inr socks)"
proof (induction rs rule: accept_loop.induct)
  case (3 sock rest)
  then show ?case by (auto simp: Cons_eq_map_conv split: prod.splits)
qed auto

end
