(* ===== verification/Server_Spec.thy ===== *)
theory Server_Spec
  imports Server Wire_Spec
begin

text \<open>
  The handlers of \<open>src/server.rs\<close> against the engine: what a client is answered, what reaches
  the cache, and what a response holds. The cache is used through the contract \<open>rc\<close> only.
\<close>

subsection \<open>Requests\<close>

datatype request = SimpleQuery string | ExecutePortal portal

primrec serve_request ::
  "('s, 'df, 'enc, 'row) server_env \<Rightarrow> 's server \<Rightarrow> nat \<times> nat \<times> request \<Rightarrow>
   (pgwire_error + 'row response list) \<times> 's server" where
  "serve_request env sv (now, r) =
     (case r of (later, req) \<Rightarrow>
        (case req of
           SimpleQuery sql \<Rightarrow> simple_do_query env sv now later sql
         | ExecutePortal p \<Rightarrow>
             (case extended_do_query env sv now later p of
                (r, sv) \<Rightarrow> (and_then r (\<lambda>response. Inr [response]), sv))))"

fun serve_all ::
  "('s, 'df, 'enc, 'row) server_env \<Rightarrow> 's server \<Rightarrow> (nat \<times> nat \<times> request) list \<Rightarrow>
   (pgwire_error + 'row response list) list \<times> 's server" where
  "serve_all env sv [] = ([], sv)"
| "serve_all env sv (r # rs) =
     (case serve_request env sv r of (a, sv) \<Rightarrow>
        (case serve_all env sv rs of (as, sv) \<Rightarrow> (a # as, sv)))"

text \<open>The answer without a cache: the engine's result, converted.\<close>

definition direct_answer ::
  "('s, 'df, 'enc, 'row) server_env \<Rightarrow> (nat \<Rightarrow> bool) \<Rightarrow> igloo_error + batch list \<Rightarrow>
   pgwire_error + 'row response list" where
  "direct_answer env is_text result =
     and_then (map_err (\<lambda>e. user_error (EngineError e)) result) (\<lambda>bs.
     and_then (batches_to_response_in_format (encoder env) bs is_text) (\<lambda>response. Inr [response]))"

primrec request_cacheable :: "request \<Rightarrow> bool" where
  "request_cacheable (SimpleQuery sql) = is_cacheable sql"
| "request_cacheable (ExecutePortal p) = portal_cacheable p"

primrec request_sql :: "request \<Rightarrow> string" where
  "request_sql (SimpleQuery sql) = sql"
| "request_sql (ExecutePortal p) = p_sql p"

primrec request_format :: "request \<Rightarrow> nat \<Rightarrow> bool" where
  "request_format (SimpleQuery sql) = all_text"
| "request_format (ExecutePortal p) = p_result_is_text p"

text \<open>Every cached result is the engine's answer to every read statement with that key.\<close>

definition answers_ok ::
  "('s, 'df, 'enc, 'row) server_env \<Rightarrow> (string \<Rightarrow> igloo_error + batch list) \<Rightarrow> string \<Rightarrow> batch list \<Rightarrow> bool" where
  "answers_ok env answer k v \<longleftrightarrow>
     (\<forall>sql. is_cacheable sql \<and> normalize_query (sql_parser env) sql = k \<longrightarrow> answer sql = Inr v)"

definition cache_sound ::
  "('s, 'df, 'enc, 'row) server_env \<Rightarrow> (string \<Rightarrow> igloo_error + batch list) \<Rightarrow> batch list cache \<Rightarrow> bool" where
  "cache_sound env answer c \<longleftrightarrow> (\<forall>k v. cached_value c k = Some v \<longrightarrow> answers_ok env answer k v)"

lemma cache_sound_all: "cache_sound env answer = rc.all_cached (answers_ok env answer)"
  by (simp add: fun_eq_iff cache_sound_def rc.all_cached_def)

text \<open>Read statements with the same key have the same answer.\<close>

definition key_decides ::
  "('s, 'df, 'enc, 'row) server_env \<Rightarrow> (string \<Rightarrow> igloo_error + batch list) \<Rightarrow> bool" where
  "key_decides env answer \<longleftrightarrow>
     (\<forall>q q'. is_cacheable q \<and> is_cacheable q' \<and>
        normalize_query (sql_parser env) q = normalize_query (sql_parser env) q' \<longrightarrow> answer q = answer q')"

definition stable_engine ::
  "('s, 'df, 'enc, 'row) server_env \<Rightarrow> (string \<Rightarrow> igloo_error + batch list) \<Rightarrow> bool" where
  "stable_engine env answer \<longleftrightarrow> key_decides env answer \<and>
     (\<forall>s sql. is_cacheable sql \<longrightarrow> fst (engine_query (session_api env) s sql) = answer sql)"

subsection \<open>The steps of a handler\<close>

lemma query_without_params: "engine_query_with_params api s sql [] = engine_query api s sql"
  by (simp add: engine_query_with_params_def engine_query_def)

lemma serve_lookup_keeps:
  assumes "serve_lookup env b sv now sql = (hit, sv')"
  shows "rc.all_cached P (sv_cache sv) \<Longrightarrow> rc.all_cached P (sv_cache sv')" and "sv_session sv' = sv_session sv"
  using assms rc.all_cached_get [of P "sv_cache sv" "sql_parser env" now sql]
  by (auto simp: serve_lookup_def split: if_splits prod.splits)

lemma serve_lookup_sound:
  assumes "serve_lookup env b sv now sql = (hit, sv')" and "cache_sound env answer (sv_cache sv)"
  shows "cache_sound env answer (sv_cache sv')" and "sv_session sv' = sv_session sv"
    and "hit = Some bs \<Longrightarrow> is_cacheable sql \<Longrightarrow> answer sql = Inr bs"
proof -
  show "cache_sound env answer (sv_cache sv')"
    using assms serve_lookup_keeps(1) by (simp add: cache_sound_all)
  show "sv_session sv' = sv_session sv"
    using assms(1) by (rule serve_lookup_keeps(2))
  show "answer sql = Inr bs" if "hit = Some bs" "is_cacheable sql"
    using assms that rc.all_cached_hit [of "answers_ok env answer" "sv_cache sv" "sql_parser env" now sql bs]
    by (auto simp: serve_lookup_def cache_sound_all answers_ok_def split: if_splits prod.splits)
qed

lemma serve_store_sound:
  assumes "cache_sound env answer (sv_cache sv)" and "key_decides env answer"
    and "is_cacheable sql" and "answer sql = Inr bs"
  shows "cache_sound env answer (sv_cache (serve_store env b sv now sql bs))"
proof -
  have "answers_ok env answer (normalize_query (sql_parser env) sql) bs"
    using assms(2-4) unfolding answers_ok_def key_decides_def by metis
  then show ?thesis
    using assms(1) by (auto simp: serve_store_def cache_sound_all intro: rc.all_cached_set)
qed

lemma serve_store_off [simp]: "serve_store env False sv now sql bs = sv"
  by (simp add: serve_store_def)

lemma serve_lookup_off [simp]: "serve_lookup env False sv now sql = (None, sv)"
  by (simp add: serve_lookup_def)

lemma simple_finish_sound:
  assumes "cache_sound env answer (sv_cache sv)" and "key_decides env answer"
    and "is_cacheable sql \<Longrightarrow> result = answer sql"
  shows "cache_sound env answer (sv_cache (snd (simple_finish env sv now sql result)))"
proof (cases "is_cacheable sql")
  case True
  with assms show ?thesis
    by (auto simp: simple_finish_def intro!: serve_store_sound split: sum.splits)
qed (use assms(1) in \<open>auto simp: simple_finish_def split: sum.splits\<close>)

lemma simple_finish_answer: "fst (simple_finish env sv now sql result) = direct_answer env all_text result"
  by (auto simp: simple_finish_def direct_answer_def batches_to_response_def split: sum.splits)

lemma extended_finish_sound:
  assumes "cache_sound env answer (sv_cache sv)" and "key_decides env answer"
    and "portal_cacheable p \<Longrightarrow> result = answer (p_sql p)"
  shows "cache_sound env answer (sv_cache (snd (extended_finish env sv now p result)))"
proof (cases "portal_cacheable p")
  case True
  with assms show ?thesis
    by (auto simp: extended_finish_def portal_cacheable_def intro!: serve_store_sound split: sum.splits)
qed (use assms(1) in \<open>auto simp: extended_finish_def split: sum.splits\<close>)

lemma extended_finish_answer:
  "and_then (fst (extended_finish env sv now p result)) (\<lambda>response. Inr [response]) =
   direct_answer env (p_result_is_text p) result"
  by (auto simp: extended_finish_def direct_answer_def split: sum.splits)

lemma simple_sound:
  assumes "stable_engine env answer" and "cache_sound env answer (sv_cache sv)"
  shows "cache_sound env answer (sv_cache (snd (simple_do_query env sv now later sql)))"
    and "is_cacheable sql \<Longrightarrow> fst (simple_do_query env sv now later sql) = direct_answer env all_text (answer sql)"
proof -
  have key: "key_decides env answer" using assms(1) by (simp add: stable_engine_def)
  obtain hit sv1 where l: "serve_lookup env (is_cacheable sql) sv now sql = (hit, sv1)" by fastforce
  note sound = serve_lookup_sound [OF l assms(2)]
  have "cache_sound env answer (sv_cache (snd (simple_do_query env sv now later sql))) \<and>
    (is_cacheable sql \<longrightarrow> fst (simple_do_query env sv now later sql) = direct_answer env all_text (answer sql))"
  proof (cases hit)
    case (Some bs)
    with sound(3) have "is_cacheable sql \<Longrightarrow> answer sql = Inr bs" by simp
    moreover have "simple_do_query env sv now later sql =
        (and_then (batches_to_response (encoder env) bs) (\<lambda>response. Inr [response]), sv1)"
      using l Some by (simp add: simple_do_query_def)
    ultimately show ?thesis
      using sound(1) by (simp add: direct_answer_def batches_to_response_def)
  next
    case None
    obtain r s where q: "engine_query (session_api env) (sv_session sv1) sql = (r, s)" by fastforce
    with assms(1) have r: "is_cacheable sql \<Longrightarrow> r = answer sql" by (metis fst_conv stable_engine_def)
    have "simple_do_query env sv now later sql = simple_finish env (sv1\<lparr>sv_session := s\<rparr>) later sql r"
      using l None q by (simp add: simple_do_query_def)
    then show ?thesis
      using simple_finish_sound [OF _ key r, of "sv1\<lparr>sv_session := s\<rparr>" later] sound(1) r
      by (simp add: simple_finish_answer)
  qed
  then show "cache_sound env answer (sv_cache (snd (simple_do_query env sv now later sql)))"
    and "is_cacheable sql \<Longrightarrow> fst (simple_do_query env sv now later sql) = direct_answer env all_text (answer sql)"
    by simp_all
qed

lemma portal_params_none: "portal_cacheable p \<Longrightarrow> portal_params env s p = (Inr [], s)"
  by (simp add: portal_params_def portal_cacheable_def)

lemma extended_sound:
  assumes "stable_engine env answer" and "cache_sound env answer (sv_cache sv)"
  shows "cache_sound env answer (sv_cache (snd (extended_do_query env sv now later p)))"
    and "portal_cacheable p \<Longrightarrow>
      and_then (fst (extended_do_query env sv now later p)) (\<lambda>response. Inr [response]) =
      direct_answer env (p_result_is_text p) (answer (p_sql p))"
proof -
  have key: "key_decides env answer" using assms(1) by (simp add: stable_engine_def)
  obtain hit sv1 where l: "serve_lookup env (portal_cacheable p) sv now (p_sql p) = (hit, sv1)" by fastforce
  note sound = serve_lookup_sound [OF l assms(2)]
  have read: "portal_cacheable p \<Longrightarrow> is_cacheable (p_sql p)" by (simp add: portal_cacheable_def)
  obtain ps s where ps: "portal_params env (sv_session sv1) p = (ps, s)" by fastforce
  have ps0: "portal_cacheable p \<Longrightarrow> ps = Inr []"
    using ps portal_params_none [of p env "sv_session sv1"] by simp
  let ?r = "extended_do_query env sv now later p"
  have "cache_sound env answer (sv_cache (snd ?r)) \<and>
    (portal_cacheable p \<longrightarrow> and_then (fst ?r) (\<lambda>response. Inr [response]) =
      direct_answer env (p_result_is_text p) (answer (p_sql p)))"
  proof (cases hit)
    case (Some bs)
    with sound(3) read have "portal_cacheable p \<Longrightarrow> answer (p_sql p) = Inr bs" by simp
    moreover have "?r = (batches_to_response_in_format (encoder env) bs (p_result_is_text p), sv1)"
      using l Some by (simp add: extended_do_query_def)
    ultimately show ?thesis
      using sound(1) by (simp add: direct_answer_def)
  next
    case None
    show ?thesis
    proof (cases ps)
      case (Inl e)
      with l None ps ps0 sound(1) show ?thesis by (auto simp: extended_do_query_def)
    next
      case (Inr params)
      obtain r s' where q: "engine_query_with_params (session_api env) s (p_sql p) params = (r, s')" by fastforce
      have r: "r = answer (p_sql p)" if "portal_cacheable p"
        using q ps0 [OF that] read [OF that] assms(1) Inr
        by (simp add: query_without_params) (metis fst_conv stable_engine_def)
      have "?r = extended_finish env (sv1\<lparr>sv_session := s'\<rparr>) later p r"
        using l None ps Inr q by (simp add: extended_do_query_def)
      then show ?thesis
        using extended_finish_sound [OF _ key r, of "sv1\<lparr>sv_session := s'\<rparr>" later] sound(1) r
        by (simp add: extended_finish_answer)
    qed
  qed
  then show "cache_sound env answer (sv_cache (snd ?r))"
    and "portal_cacheable p \<Longrightarrow> and_then (fst ?r) (\<lambda>response. Inr [response]) =
      direct_answer env (p_result_is_text p) (answer (p_sql p))"
    by simp_all
qed

lemma serve_request_sound:
  assumes "stable_engine env answer" and "cache_sound env answer (sv_cache sv)"
  shows "cache_sound env answer (sv_cache (snd (serve_request env sv (now, later, req)))) \<and>
    (request_cacheable req \<longrightarrow> fst (serve_request env sv (now, later, req)) =
       direct_answer env (request_format req) (answer (request_sql req)))"
  using simple_sound [OF assms] extended_sound [OF assms]
  by (cases req) (simp_all add: case_prod_unfold)

lemma serve_all_sound:
  assumes "stable_engine env answer" and "cache_sound env answer (sv_cache sv)"
  shows "cache_sound env answer (sv_cache (snd (serve_all env sv rs))) \<and>
    list_all2 (\<lambda>(now, later, req) a. request_cacheable req \<longrightarrow>
      a = direct_answer env (request_format req) (answer (request_sql req))) rs (fst (serve_all env sv rs))"
  using assms(2)
proof (induction rs arbitrary: sv)
  case (Cons r rs)
  obtain now later req where r: "r = (now, later, req)" by (cases r)
  from serve_request_sound [OF assms(1) Cons.prems, of now later req]
    Cons.IH [of "snd (serve_request env sv (now, later, req))"] show ?case
    by (simp add: r case_prod_unfold del: serve_request.simps)
qed simp

subsection \<open>Responses\<close>

text \<open>The cells of a result in the order they are sent: batch by batch, row by row.\<close>

definition row_positions :: "batch list \<Rightarrow> (batch \<times> nat) list" where
  "row_positions bs = concat (map (\<lambda>b. map (Pair b) [0..<b_rows b]) bs)"

lemma rows_in_order:
  assumes "collect_result (encode_batch_rows w fis) bs = Inr rows"
  shows "list_all2 (\<lambda>(b, i) row. encode_row w fis b i = Inr row) (row_positions bs) (concat rows)"
proof -
  have "list_all2 (\<lambda>b rs. encode_batch_rows w fis b = Inr rs) bs rows"
    using assms by (simp add: err_case)
  then show ?thesis
  proof (induction rule: list_all2_induct)
    case (Cons b bs rs rows)
    then have "list_all2 (\<lambda>i row. encode_row w fis b i = Inr row) [0..<b_rows b] rs"
      by (simp add: encode_batch_rows_def err_case)
    then have "list_all2 (\<lambda>(b, i) row. encode_row w fis b i = Inr row) (map (Pair b) [0..<b_rows b]) rs"
      by (simp add: list_all2_map1)
    with Cons.IH show ?case by (simp add: row_positions_def list_all2_appendI)
  qed (simp add: row_positions_def)
qed

lemma schema_fields:
  assumes "schema_to_field_infos sch is_text = Inr fis"
  shows "length fis = length sch \<and> (\<forall>i < length sch. fi_name (fis ! i) = f_name (sch ! i) \<and>
    map_arrow_type (f_type (sch ! i)) = Inr (fi_type (fis ! i)) \<and> fi_is_text (fis ! i) = is_text i)"
proof (intro conjI allI impI)
  have all: "list_all2 (\<lambda>x y. field_info_of is_text x = Inr y) (enumerate 0 sch) fis"
    using assms by (simp add: schema_to_field_infos_def err_case)
  then show len: "length fis = length sch" by (simp add: list_all2_lengthD [symmetric])
  fix i
  assume i: "i < length sch"
  with all len have "field_info_of is_text (i, sch ! i) = Inr (fis ! i)"
    by (auto simp: list_all2_conv_all_nth nth_enumerate_eq)
  then obtain t where t: "map_arrow_type (f_type (sch ! i)) = Inr t"
    and f: "fis ! i = \<lparr>fi_name = f_name (sch ! i), fi_type = t, fi_is_text = is_text i\<rparr>"
    by (auto simp: field_info_of_def err_case)
  from f show "fi_name (fis ! i) = f_name (sch ! i)" "fi_is_text (fis ! i) = is_text i" by simp_all
  from f t show "map_arrow_type (f_type (sch ! i)) = Inr (fi_type (fis ! i))" by simp
qed

lemma map_arrow_type_error: "map_arrow_type dt = Inl e \<Longrightarrow> e = user_error (UnsupportedColumn dt)"
  by (simp add: map_arrow_type_def split: data_type.splits time_unit.splits)

lemma schema_fields_error:
  assumes "schema_to_field_infos sch is_text = Inl e"
  shows "\<exists>f \<in> set sch. map_arrow_type (f_type f) = Inl e \<and> e = user_error (UnsupportedColumn (f_type f))"
proof -
  from assms obtain i where "i < length sch" "field_info_of is_text (i, sch ! i) = Inl e"
    by (auto simp: schema_to_field_infos_def collect_result_Inl nth_enumerate_eq)
  then have "sch ! i \<in> set sch" "map_arrow_type (f_type (sch ! i)) = Inl e"
    by (auto simp: field_info_of_def err_case)
  then show ?thesis using map_arrow_type_error by blast
qed

text \<open>The errors of the wire library's own encoder.\<close>

definition library_errors :: "('enc, 'row) row_encoder \<Rightarrow> bool" where
  "library_errors w \<longleftrightarrow>
     (\<forall>enc v e. encode_field w enc v = Inl e \<longrightarrow> (\<exists>m. e = EncodeError m)) \<and>
     (\<forall>enc e. finish_row w enc = Inl e \<longrightarrow> (\<exists>m. e = EncodeError m))"

definition row_error :: "pgwire_error \<Rightarrow> bool" where
  "row_error e \<longleftrightarrow> (\<exists>m. e = EncodeError m) \<or> e = user_error DateOutOfRange"

lemma encode_cell_error:
  "library_errors w \<Longrightarrow> map_arrow_type (fst arr) = Inr t \<Longrightarrow> encode_cell w enc arr row = Inl e \<Longrightarrow> row_error e"
  by (auto simp: encode_cell_def map_arrow_type_def row_error_def library_errors_def Let_def
      split: data_type.splits time_unit.splits option.splits rust_value.splits if_splits)

lemma encode_columns_error:
  "library_errors w \<Longrightarrow> \<forall>dt \<in> fst ` set arrs. \<exists>t. map_arrow_type dt = Inr t \<Longrightarrow>
   encode_columns w enc arrs row = Inl e \<Longrightarrow> row_error e"
  by (induction arrs arbitrary: enc) (auto simp: err_case dest: encode_cell_error)

lemma encode_row_error:
  "library_errors w \<Longrightarrow> \<forall>dt \<in> fst ` set (b_columns b). \<exists>t. map_arrow_type dt = Inr t \<Longrightarrow>
   encode_row w fis b row = Inl e \<Longrightarrow> row_error e"
  by (auto simp: encode_row_def err_case row_error_def library_errors_def
      dest!: encode_columns_error [unfolded row_error_def library_errors_def, rotated 2])

subsection \<open>Properties\<close>

text \<open>For the witnesses: an engine that knows one statement, whatever its spelling, and answers it
  with the integers 7 and NULL; rows are the lists of their values.\<close>

definition one_column :: batch where
  "one_column = \<lparr>b_schema = [\<lparr>f_name = ''n'', f_type = Int64, f_nullable = True, f_meta = Map.empty\<rparr>],
     b_columns = [(Int64, [SInt64 (Some 7), SInt64 None])], b_rows = 2\<rparr>"

definition sample_engine :: "(unit, string) session" where
  "sample_engine =
     \<lparr>ctx_sql = (\<lambda>s q. (if normalize_lexical q = ''SELECT n FROM t'' then Inr q else Inl ''unknown table'', s)),
      df_collect = (\<lambda>s df. (Inr [one_column], s)), df_with_params = (\<lambda>df ps. Inr df),
      df_schema = (\<lambda>df. b_schema one_column), parameter_names = (\<lambda>df. Inr []),
      parameter_types = (\<lambda>df. Inr [])\<rparr>"

definition list_encoder :: "(rust_value option list, rust_value option list) row_encoder" where
  "list_encoder = \<lparr>new_encoder = (\<lambda>fis. []), encode_field = (\<lambda>vs v. Inr (vs @ [v])), finish_row = Inr,
     date_ok = (\<lambda>d. True)\<rparr>"

definition sample_env :: "(unit, string, rust_value option list, rust_value option list) server_env" where
  "sample_env = \<lparr>session_api = sample_engine, sql_parser = (\<lambda>_. None), encoder = list_encoder,
     param_decoders = sample_decoders\<rparr>"

definition sample_answer :: "string \<Rightarrow> igloo_error + batch list" where
  "sample_answer sql = (if normalize_lexical sql = ''SELECT n FROM t'' then Inr [one_column]
                        else Inl (EDataFusion ''unknown table''))"

definition fresh_cache :: "batch list cache" where
  "fresh_cache = \<lparr>inner = \<lparr>store = [], tick = 0, hits = 0, misses = 0, evictions_lru = 0, evictions_ttl = 0\<rparr>,
     max_entries = 2, ttl = 60\<rparr>"

definition fresh_server :: "unit server" where
  "fresh_server = \<lparr>sv_session = (), sv_cache = fresh_cache\<rparr>"

lemma sample_stable: "stable_engine sample_env sample_answer"
  by (auto simp: stable_engine_def key_decides_def sample_env_def sample_engine_def sample_answer_def engine_query_def
      run_sql_def normalize_query_def)


lemma sample_response:
  "batches_to_response_in_format list_encoder [one_column] all_text =
     Inr (QueryRows [\<lparr>fi_name = ''n'', fi_type = T_INT8, fi_is_text = True\<rparr>] [[Some (V_int 7)], [None]])"
  by (simp add: batches_to_response_in_format_def schema_to_field_infos_def field_info_of_def map_arrow_type_def
      encode_batch_rows_def encode_row_def encode_cell_def one_column_def list_encoder_def all_text_def
      upt_conv_Cons)

definition sample_requests :: "(nat \<times> nat \<times> request) list" where
  "sample_requests = [(1, 2, SimpleQuery ''SELECT  n FROM t''), (3, 4, SimpleQuery ''DROP TABLE t''),
     (5, 6, SimpleQuery ''SELECT n  FROM t;'')]"




text \<open>Recognition is by the leading keyword alone, so a statement that writes can pass for a read.\<close>

lemma select_into_cacheable: "is_cacheable ''SELECT * INTO copy FROM orders''"
  by code_simp



end
