(* ===== verification/System.thy ===== *)
theory System
  imports Server_Spec Cdc_Sync
begin

text \<open>
  The running server: connections, the CDC poller and the outside world, interleaved.

  A handler of \<open>src/server.rs\<close> gives up control while the engine works, so between its cache
  lookup and its store other connections, changes of the data and ticks of the poller
  (\<open>src/cdc_sync.rs\<close>, spawned by \<open>src/main.rs\<close>) may happen. A step is what runs without giving
  up control: a lookup that hits and is answered, a lookup that misses and leaves a task, the
  planning of a portal with parameters and the decoding of its values, the engine's work on a task,
  the end of a task (conversion and store), a tick, and a change of the data or the files. What the
  engine does for one call of the handler is one step.
\<close>

datatype task =
    Waiting request
  | Planned portal "scalar list"
  | Executed request "igloo_error + batch list"

text \<open>\<open>sys_past\<close> records the session states so far; no step reads it.\<close>

record 's system =
  sys_server :: "'s server"
  sys_tasks :: "task list"
  sys_cdc :: cdc_listener
  sys_fs :: fs
  sys_past :: "'s list"

text \<open>What a step shows: an answer from the cache or at the end of a task, the arrival of a request
  that missed, work on a task, a tick with its count of events, or a change.\<close>

datatype 'row label =
    Hit request "pgwire_error + 'row response list"
  | Answered request "pgwire_error + 'row response list"
  | Began request
  | Worked
  | Synced nat
  | Changed

fun label_answer :: "'row label \<Rightarrow> (request \<times> (pgwire_error + 'row response list)) option" where
  "label_answer (Hit req a) = Some (req, a)"
| "label_answer (Answered req a) = Some (req, a)"
| "label_answer _ = None"

primrec plain_request :: "request \<Rightarrow> bool" where
  "plain_request (SimpleQuery sql) = True"
| "plain_request (ExecutePortal p) = (p_parameters p = [])"

primrec request_finish ::
  "('s, 'df, 'enc, 'row) server_env \<Rightarrow> 's server \<Rightarrow> nat \<Rightarrow> request \<Rightarrow> igloo_error + batch list \<Rightarrow>
   (pgwire_error + 'row response list) \<times> 's server" where
  "request_finish env sv now (SimpleQuery sql) result = simple_finish env sv now sql result"
| "request_finish env sv now (ExecutePortal p) result =
     (case extended_finish env sv now p result of
        (r, sv) \<Rightarrow> (and_then r (\<lambda>response. Inr [response]), sv))"

definition with_session :: "'s system \<Rightarrow> 's \<Rightarrow> 's system" where
  "with_session y s = y\<lparr>sys_server := (sys_server y)\<lparr>sv_session := s\<rparr>, sys_past := s # sys_past y\<rparr>"

definition with_cache :: "'s system \<Rightarrow> batch list cache \<Rightarrow> 's system" where
  "with_cache y c = y\<lparr>sys_server := (sys_server y)\<lparr>sv_cache := c\<rparr>\<rparr>"

inductive sys_step ::
  "('s, 'df, 'enc, 'row) server_env \<Rightarrow> 's system \<Rightarrow> 'row label \<Rightarrow> 's system \<Rightarrow> bool"
  for env where
  answer_hit:
    "serve_lookup env (request_cacheable req) (sys_server y) now (request_sql req) = (Some bs, sv) \<Longrightarrow>
     sys_step env y (Hit req (direct_answer env (request_format req) (Inr bs))) (y\<lparr>sys_server := sv\<rparr>)"
| begin_miss:
    "serve_lookup env (request_cacheable req) (sys_server y) now (request_sql req) = (None, sv) \<Longrightarrow>
     sys_step env y (Began req) (y\<lparr>sys_server := sv, sys_tasks := sys_tasks y @ [Waiting req]\<rparr>)"
| plan:
    "sys_tasks y = ts @ Waiting (ExecutePortal p) # us \<Longrightarrow> p_parameters p \<noteq> [] \<Longrightarrow>
     portal_params env (sv_session (sys_server y)) p = (Inr ps, s) \<Longrightarrow>
     sys_step env y Worked (with_session y s\<lparr>sys_tasks := ts @ Planned p ps # us\<rparr>)"
| plan_error:
    "sys_tasks y = ts @ Waiting (ExecutePortal p) # us \<Longrightarrow> p_parameters p \<noteq> [] \<Longrightarrow>
     portal_params env (sv_session (sys_server y)) p = (Inl e, s) \<Longrightarrow>
     sys_step env y (Answered (ExecutePortal p) (Inl e)) (with_session y s\<lparr>sys_tasks := ts @ us\<rparr>)"
| execute:
    "sys_tasks y = ts @ Waiting req # us \<Longrightarrow> plain_request req \<Longrightarrow>
     engine_query (session_api env) (sv_session (sys_server y)) (request_sql req) = (result, s) \<Longrightarrow>
     sys_step env y Worked (with_session y s\<lparr>sys_tasks := ts @ Executed req result # us\<rparr>)"
| execute_params:
    "sys_tasks y = ts @ Planned p ps # us \<Longrightarrow> p_parameters p \<noteq> [] \<Longrightarrow>
     engine_query_with_params (session_api env) (sv_session (sys_server y)) (p_sql p) ps = (result, s) \<Longrightarrow>
     sys_step env y Worked (with_session y s\<lparr>sys_tasks := ts @ Executed (ExecutePortal p) result # us\<rparr>)"
| finish:
    "sys_tasks y = ts @ Executed req result # us \<Longrightarrow>
     request_finish env (sys_server y) now req result = (a, sv) \<Longrightarrow>
     sys_step env y (Answered req a) (y\<lparr>sys_server := sv, sys_tasks := ts @ us\<rparr>)"
| world_change: "sys_step env y Changed (with_session y s\<lparr>sys_fs := f\<rparr>)"
| cdc_tick:
    "sync (sys_fs y) (sys_cdc y) (sv_cache (sys_server y)) = (n, l, c) \<Longrightarrow>
     sys_step env y (Synced n) (with_cache y c\<lparr>sys_cdc := l\<rparr>)"

inductive_cases hitE: "sys_step env y (Hit req a) y'"
inductive_cases answeredE: "sys_step env y (Answered req a) y'"
inductive_cases syncedE: "sys_step env y (Synced n) y'"

text \<open>The start of \<open>serve\<close>: a fresh cache, a fresh listener, no connection.\<close>

definition sys_start :: "'s system \<Rightarrow> bool" where
  "sys_start y \<longleftrightarrow> (\<exists>n t. with_clock n t = Inr (sv_cache (sys_server y))) \<and> sys_tasks y = [] \<and>
     sys_cdc y = cdc_new (iceberg_path (sys_cdc y)) \<and> sys_past y = [sv_session (sys_server y)]"

inductive sys_reachable :: "('s, 'df, 'enc, 'row) server_env \<Rightarrow> 's system \<Rightarrow> bool" for env where
  start: "sys_start y \<Longrightarrow> sys_reachable env y"
| step: "sys_reachable env y \<Longrightarrow> sys_step env y l y' \<Longrightarrow> sys_reachable env y'"

subsection \<open>The parts of a step\<close>

abbreviation answer_now :: "('s, 'df, 'enc, 'row) server_env \<Rightarrow> 's system \<Rightarrow> string \<Rightarrow> igloo_error + batch list" where
  "answer_now env y sql \<equiv> fst (engine_query (session_api env) (sv_session (sys_server y)) sql)"

abbreviation sys_cache :: "'s system \<Rightarrow> batch list cache" where
  "sys_cache y \<equiv> sv_cache (sys_server y)"

abbreviation sys_session :: "'s system \<Rightarrow> 's" where
  "sys_session y \<equiv> sv_session (sys_server y)"

lemma system_parts [simp]:
  "sys_session (with_session y s) = s" "sys_cache (with_session y s) = sys_cache y"
  "sys_tasks (with_session y s) = sys_tasks y" "sys_past (with_session y s) = s # sys_past y"
  "sys_cdc (with_session y s) = sys_cdc y"
  "sys_session (with_cache y c) = sys_session y" "sys_cache (with_cache y c) = c"
  "sys_tasks (with_cache y c) = sys_tasks y" "sys_past (with_cache y c) = sys_past y"
  "sys_cdc (with_cache y c) = sys_cdc y"
  by (simp_all add: with_session_def with_cache_def)

lemma request_finish_answer: "fst (request_finish env sv now req result) = direct_answer env (request_format req) result"
  by (cases req) (simp_all add: simple_finish_answer extended_finish_answer case_prod_unfold)

text \<open>A task that ends stores at most its own result.\<close>

lemma request_finish_cached:
  assumes "request_finish env sv now req result = (a, sv')" and "rc.all_cached P (sv_cache sv)"
    and "\<And>bs. request_cacheable req \<Longrightarrow> result = Inr bs \<Longrightarrow> P (normalize_query (sql_parser env) (request_sql req)) bs"
  shows "rc.all_cached P (sv_cache sv') \<and> sv_session sv' = sv_session sv"
  using assms
  by (cases req)
    (auto simp: simple_finish_def extended_finish_def serve_store_def intro!: rc.all_cached_set
      split: sum.splits if_splits)

lemma cacheable_plain: "request_cacheable req \<Longrightarrow> plain_request req"
  by (cases req) (simp_all add: portal_cacheable_def)

lemma cacheable_portal [simp]: "p_parameters p \<noteq> [] \<Longrightarrow> \<not> portal_cacheable p"
  by (simp add: portal_cacheable_def)

lemma read_request: "request_cacheable req \<Longrightarrow> is_cacheable (request_sql req)"
  by (cases req) (simp_all add: portal_cacheable_def)

subsection \<open>Every result has a past\<close>

definition once_true :: "('s, 'df, 'enc, 'row) server_env \<Rightarrow> 's list \<Rightarrow> string \<Rightarrow> batch list \<Rightarrow> bool" where
  "once_true env past k v \<longleftrightarrow>
     (\<exists>s \<in> set past. \<exists>sql. is_cacheable sql \<and> normalize_query (sql_parser env) sql = k \<and>
        fst (engine_query (session_api env) s sql) = Inr v)"

text \<open>What planning makes of a request in state \<open>s1\<close>, what executing it then gives in state \<open>s2\<close>, and
  the answer to it when nothing is cached.\<close>

primrec planned :: "('s, 'df, 'enc, 'row) server_env \<Rightarrow> 's \<Rightarrow> request \<Rightarrow> pgwire_error + scalar list" where
  "planned env s1 (SimpleQuery sql) = Inr []"
| "planned env s1 (ExecutePortal p) = fst (portal_params env s1 p)"

definition executed ::
  "('s, 'df, 'enc, 'row) server_env \<Rightarrow> 's \<Rightarrow> request \<Rightarrow> scalar list \<Rightarrow> igloo_error + batch list" where
  "executed env s2 req ps = fst (engine_query_with_params (session_api env) s2 (request_sql req) ps)"

definition request_answer ::
  "('s, 'df, 'enc, 'row) server_env \<Rightarrow> 's \<Rightarrow> 's \<Rightarrow> request \<Rightarrow> pgwire_error + 'row response list" where
  "request_answer env s1 s2 req =
     and_then (planned env s1 req) (\<lambda>ps. direct_answer env (request_format req) (executed env s2 req ps))"

lemma planned_plain [simp]: "plain_request req \<Longrightarrow> planned env s1 req = Inr []"
  by (cases req) (simp_all add: portal_params_def)

lemma executed_plain [simp]: "executed env s2 req [] = fst (engine_query (session_api env) s2 (request_sql req))"
  by (simp add: executed_def engine_query_with_params_def engine_query_def)

fun task_true :: "('s, 'df, 'enc, 'row) server_env \<Rightarrow> 's list \<Rightarrow> task \<Rightarrow> bool" where
  "task_true env past (Waiting req) = True"
| "task_true env past (Planned p ps) =
     (p_parameters p \<noteq> [] \<and> (\<exists>s1 \<in> set past. planned env s1 (ExecutePortal p) = Inr ps))"
| "task_true env past (Executed req r) =
     (\<exists>s1 \<in> set past. \<exists>s2 \<in> set past. \<exists>ps. planned env s1 req = Inr ps \<and> r = executed env s2 req ps)"

definition past_ok :: "('s, 'df, 'enc, 'row) server_env \<Rightarrow> 's system \<Rightarrow> bool" where
  "past_ok env y \<longleftrightarrow> sys_session y \<in> set (sys_past y) \<and>
     rc.all_cached (once_true env (sys_past y)) (sys_cache y) \<and>
     (\<forall>t \<in> set (sys_tasks y). task_true env (sys_past y) t)"

lemma once_true_more: "once_true env past k v \<Longrightarrow> once_true env (s # past) k v"
  by (auto simp: once_true_def)

lemma task_true_more: "task_true env past t \<Longrightarrow> task_true env (s # past) t"
  by (cases t) (simp, fastforce, simp, blast)

lemma past_ok_session:
  assumes "past_ok env y" and "sys_tasks y = ts @ t # us" and "\<forall>t' \<in> set ts'. task_true env (s # sys_past y) t'"
  shows "past_ok env (with_session y s\<lparr>sys_tasks := ts @ ts' @ us\<rparr>)"
  using assms
  by (auto simp: past_ok_def with_session_def intro: rc.all_cached_mono once_true_more task_true_more)

lemma past_ok_step:
  assumes "sys_step env y l y'" and "past_ok env y"
  shows "past_ok env y'"
  using assms
proof (induction rule: sys_step.induct)
  case (answer_hit req y now bs sv)
  then show ?case
    using serve_lookup_keeps [OF answer_hit(1)] by (simp add: past_ok_def)
next
  case (begin_miss req y now sv)
  then show ?case
    using serve_lookup_keeps [OF begin_miss(1)] by (auto simp: past_ok_def)
next
  case (plan y ts p us ps s)
  have "\<exists>s1 \<in> set (sys_past y). fst (portal_params env s1 p) = Inr ps"
    using plan by (intro bexI [of _ "sys_session y"]) (simp_all add: past_ok_def)
  with plan.hyps(2) show ?case
    using past_ok_session [OF plan.prems plan.hyps(1), of "[Planned p ps]" s] by simp
next
  case (plan_error y ts p us e s)
  then show ?case
    using past_ok_session [OF plan_error.prems plan_error.hyps(1), of "[]" s] by simp
next
  case (execute y ts req us result s)
  have "task_true env (s # sys_past y) (Executed req result)"
    using execute by (auto simp: past_ok_def intro!: bexI [of _ "sys_session y"])
  then show ?case
    using past_ok_session [OF execute.prems execute.hyps(1), of "[Executed req result]" s] by simp
next
  case (execute_params y ts p ps us result s)
  then have "task_true env (sys_past y) (Planned p ps)" and now: "sys_session y \<in> set (sys_past y)"
    by (simp_all add: past_ok_def)
  then obtain s1 where "s1 \<in> set (sys_past y)" "planned env s1 (ExecutePortal p) = Inr ps" by auto
  moreover have "result = executed env (sys_session y) (ExecutePortal p) ps"
    using execute_params.hyps(3) by (simp add: executed_def)
  ultimately have "task_true env (sys_past y) (Executed (ExecutePortal p) result)"
    using now unfolding task_true.simps by blast
  then have "task_true env (s # sys_past y) (Executed (ExecutePortal p) result)" by (rule task_true_more)
  then show ?case
    using past_ok_session [OF execute_params.prems execute_params.hyps(1), of "[Executed (ExecutePortal p) result]" s]
    by simp
next
  case (finish y ts req result us now a sv)
  have t: "task_true env (sys_past y) (Executed req result)"
    using finish.hyps(1) finish.prems by (simp add: past_ok_def)
  have "once_true env (sys_past y) (normalize_query (sql_parser env) (request_sql req)) bs"
    if "request_cacheable req" "result = Inr bs" for bs
    using t that read_request cacheable_plain [OF that(1)] by (fastforce simp: once_true_def)
  with request_finish_cached [OF finish.hyps(2), of "once_true env (sys_past y)"] finish
  show ?case by (auto simp: past_ok_def)
next
  case (world_change y s f)
  then show ?case
    by (auto simp: past_ok_def with_session_def intro: rc.all_cached_mono once_true_more task_true_more)
next
  case (cdc_tick y n l c)
  have "rc.all_cached (once_true env (sys_past y)) c"
    using cdc_tick sync_cache [OF cdc_tick.hyps] rc.all_cached_clear
    by (auto simp: past_ok_def split: if_splits)
  with cdc_tick show ?case by (simp add: past_ok_def with_cache_def)
qed

lemma past_ok_reachable: "sys_reachable env y \<Longrightarrow> past_ok env y"
proof (induction rule: sys_reachable.induct)
  case (start y)
  then show ?case
    by (auto simp: sys_start_def past_ok_def intro: rc.all_cached_empty with_clock_empty)
qed (rule past_ok_step)

subsection \<open>Freshness\<close>

definition fresh_task :: "('s, 'df, 'enc, 'row) server_env \<Rightarrow> 's system \<Rightarrow> task \<Rightarrow> bool" where
  "fresh_task env y t \<longleftrightarrow>
     (\<forall>req r. t = Executed req r \<and> request_cacheable req \<longrightarrow> r = answer_now env y (request_sql req))"

definition fresh :: "('s, 'df, 'enc, 'row) server_env \<Rightarrow> 's system \<Rightarrow> bool" where
  "fresh env y \<longleftrightarrow> cache_sound env (answer_now env y) (sys_cache y) \<and>
     (\<forall>t \<in> set (sys_tasks y). fresh_task env y t)"

lemma fresh_step:
  assumes "sys_step env y l y'" and "fresh env y" and key: "key_decides env (answer_now env y)"
    and "sys_session y' = sys_session y"
  shows "fresh env y' \<and> (\<forall>req a. label_answer l = Some (req, a) \<and> request_cacheable req \<longrightarrow>
    a = direct_answer env (request_format req) (answer_now env y (request_sql req)))"
  using assms
proof (induction rule: sys_step.induct)
  case (answer_hit req y now bs sv)
  note s = serve_lookup_sound [OF answer_hit(1), of "answer_now env y"]
  have "answer_now env y (request_sql req) = Inr bs" if "request_cacheable req"
    using s(3) answer_hit.prems read_request that by (simp add: fresh_def)
  with s(1,2) answer_hit.prems show ?case by (simp add: fresh_def fresh_task_def)
next
  case (begin_miss req y now sv)
  note s = serve_lookup_sound [OF begin_miss(1), of "answer_now env y"]
  with begin_miss.prems show ?case by (auto simp: fresh_def fresh_task_def)
next
  case (plan y ts p us ps s)
  then show ?case by (auto simp: fresh_def fresh_task_def)
next
  case (plan_error y ts p us e s)
  then show ?case by (auto simp: fresh_def fresh_task_def)
next
  case (execute y ts req us result s)
  then show ?case by (auto simp: fresh_def fresh_task_def)
next
  case (execute_params y ts p ps us result s)
  then show ?case by (auto simp: fresh_def fresh_task_def)
next
  case (finish y ts req result us now a sv)
  have t: "result = answer_now env y (request_sql req)" if "request_cacheable req"
    using finish.hyps(1) finish.prems(1) that by (simp add: fresh_def fresh_task_def)
  have "answers_ok env (answer_now env y) (normalize_query (sql_parser env) (request_sql req)) bs"
    if "request_cacheable req" "result = Inr bs" for bs
    using finish.prems(2) t [OF that(1)] that read_request [OF that(1)]
    unfolding answers_ok_def key_decides_def by metis
  with request_finish_cached [OF finish.hyps(2), of "answers_ok env (answer_now env y)"] finish
  have "cache_sound env (answer_now env y) (sv_cache sv)" "sv_session sv = sys_session y"
    by (auto simp: fresh_def cache_sound_all)
  moreover have "a = direct_answer env (request_format req) result"
    using request_finish_answer [of env "sys_server y" now req result] finish.hyps(2) by simp
  ultimately show ?case using finish t by (auto simp: fresh_def fresh_task_def)
next
  case (world_change y s f)
  then show ?case by (auto simp: fresh_def fresh_task_def with_session_def)
next
  case (cdc_tick y n l c)
  have "cache_sound env (answer_now env y) c"
    using cdc_tick sync_cache [OF cdc_tick.hyps] rc.all_cached_clear
    by (auto simp: fresh_def cache_sound_all split: if_splits)
  with cdc_tick show ?case by (simp add: fresh_def fresh_task_def with_cache_def)
qed

text \<open>A run during which the data stands still.\<close>

inductive steady_run ::
  "('s, 'df, 'enc, 'row) server_env \<Rightarrow> 's system \<Rightarrow> 'row label list \<Rightarrow> 's system \<Rightarrow> bool" for env where
  steady_nil: "steady_run env y [] y"
| steady_cons: "sys_step env y l y' \<Longrightarrow> sys_session y' = sys_session y \<Longrightarrow> steady_run env y' ls y'' \<Longrightarrow>
    steady_run env y (l # ls) y''"

inductive_cases steady_consE: "steady_run env y (l # ls) y''"

lemma fresh_run:
  assumes "steady_run env y ls y'" and "fresh env y" and "key_decides env (answer_now env y)"
  shows "\<forall>l \<in> set ls. \<forall>req a. label_answer l = Some (req, a) \<and> request_cacheable req \<longrightarrow>
    a = direct_answer env (request_format req) (answer_now env y (request_sql req))"
  using assms
proof (induction rule: steady_run.induct)
  case (steady_cons y l y' ls y'')
  from fresh_step [OF steady_cons.hyps(1) steady_cons.prems steady_cons.hyps(2)]
    steady_cons.IH steady_cons.prems(2) steady_cons.hyps(2)
  show ?case by auto
qed simp

lemma fresh_after_tick:
  assumes "sys_step env y (Synced n) y'" and "n \<noteq> 0" and "\<forall>req r. Executed req r \<in> set (sys_tasks y) \<longrightarrow> \<not> request_cacheable req"
  shows "fresh env y' \<and> sys_session y' = sys_session y"
  using assms(1)
proof (rule syncedE)
  fix l c
  assume y': "y' = with_cache y c\<lparr>sys_cdc := l\<rparr>"
    and s: "sync (sys_fs y) (sys_cdc y) (sys_cache y) = (n, l, c)"
  from sync_flushes [OF s assms(2)] have "cache_sound env (answer_now env y) c"
    by (auto simp: cache_sound_all intro: rc.all_cached_mono)
  with assms(3) show ?thesis
    by (auto simp: fresh_def fresh_task_def y' with_cache_def)
qed

subsection \<open>Progress\<close>

inductive sys_run ::
  "('s, 'df, 'enc, 'row) server_env \<Rightarrow> 's system \<Rightarrow> 'row label list \<Rightarrow> 's system \<Rightarrow> bool" for env where
  run_nil: "sys_run env y [] y"
| run_cons: "sys_step env y l y' \<Longrightarrow> sys_run env y' ls y'' \<Longrightarrow> sys_run env y (l # ls) y''"

lemma steady_run_is_run: "steady_run env y ls y' \<Longrightarrow> sys_run env y ls y'"
  by (induction rule: steady_run.induct) (auto intro: sys_run.intros)

primrec task_request :: "task \<Rightarrow> request" where
  "task_request (Waiting req) = req"
| "task_request (Planned p ps) = ExecutePortal p"
| "task_request (Executed req r) = req"

definition answered :: "'row label \<Rightarrow> request list" where
  "answered l = (case label_answer l of Some (req, a) \<Rightarrow> [req] | None \<Rightarrow> [])"

text \<open>The size of a system is the work left in it: the steps its tasks may still take.\<close>

primrec task_work :: "task \<Rightarrow> nat" where
  "task_work (Waiting req) = 3"
| "task_work (Planned p ps) = 2"
| "task_work (Executed req r) = 1"

instantiation system_ext :: (type, type) size
begin

definition size_system_ext :: "('a, 'b) system_ext \<Rightarrow> nat" where
  "size_system_ext y = sum_list (map task_work (sys_tasks y))"

instance ..

end

lemma size_parts [simp]:
  "size (with_session y s) = size y" "size (with_cache y c) = size y"
  "size (y\<lparr>sys_server := sv\<rparr>) = size y" "size (y\<lparr>sys_cdc := l\<rparr>) = size y" "size (y\<lparr>sys_fs := f\<rparr>) = size y"
  "size (y\<lparr>sys_tasks := ts\<rparr>) = sum_list (map task_work ts)"
  for y :: "'s system"
  by (simp_all add: size_system_ext_def with_session_def with_cache_def)

lemma size_at_most: "size y \<le> 3 * length (sys_tasks y)" for y :: "'s system"
proof -
  have "sum_list (map task_work ts) \<le> 3 * length ts" for ts
  proof (induction ts)
    case (Cons t ts)
    have "task_work t \<le> 3" by (cases t) simp_all
    with Cons show ?case by simp
  qed simp
  then show ?thesis by (simp add: size_system_ext_def)
qed

text \<open>The first task can always go on, and then less is left.\<close>

lemma head_step:
  fixes env :: "('s, 'df, 'enc, 'row) server_env" and y :: "'s system"
  assumes "sys_tasks y = t # us" and "past_ok env y"
  shows "\<exists>l y'. sys_step env y l y' \<and> size y' < size y \<and>
    answered l @ map task_request (sys_tasks y') = map task_request (sys_tasks y)"
proof -
  have head: "sys_tasks y = [] @ t # us" using assms by simp
  have size: "size y = task_work t + sum_list (map task_work us)" using assms by (simp add: size_system_ext_def)
  show ?thesis
  proof (cases t)
    case (Executed req r)
    obtain a sv where "request_finish env (sys_server y) 0 req r = (a, sv)" by fastforce
    from finish [OF head [unfolded Executed] this] show ?thesis
      using size Executed assms by (force simp: answered_def)
  next
    case (Planned p ps)
    obtain r s where q: "engine_query_with_params (session_api env) (sys_session y) (p_sql p) ps = (r, s)" by fastforce
    have "p_parameters p \<noteq> []" using assms Planned by (simp add: past_ok_def)
    from execute_params [OF head [unfolded Planned] this q] show ?thesis
      using size Planned assms by (force simp: answered_def)
  next
    case (Waiting req)
    show ?thesis
    proof (cases "plain_request req")
      case True
      obtain r s where "engine_query (session_api env) (sys_session y) (request_sql req) = (r, s)" by fastforce
      from execute [OF head [unfolded Waiting] True this] show ?thesis
        using size Waiting assms by (force simp: answered_def)
    next
      case False
      then obtain p where p: "req = ExecutePortal p" "p_parameters p \<noteq> []" by (cases req) auto
      obtain r s where q: "portal_params env (sys_session y) p = (r, s)" by fastforce
      show ?thesis
      proof (cases r)
        case (Inl e)
        from plan_error [OF head [unfolded Waiting p(1)] p(2) q [unfolded Inl]] show ?thesis
          using size Waiting p assms by (force simp: answered_def)
      next
        case (Inr ps)
        from plan [OF head [unfolded Waiting p(1)] p(2) q [unfolded Inr]] show ?thesis
          using size Waiting p assms by (force simp: answered_def)
      qed
    qed
  qed
qed

lemma drain_tasks:
  fixes env :: "('s, 'df, 'enc, 'row) server_env" and y :: "'s system"
  assumes "past_ok env y"
  shows "\<exists>ls y'. sys_run env y ls y' \<and> sys_tasks y' = [] \<and>
     concat (map answered ls) = map task_request (sys_tasks y) \<and> length ls \<le> size y"
  using assms
proof (induction y rule: measure_induct_rule [where f = size])
  case (less y)
  show ?case
  proof (cases "sys_tasks y")
    case Nil
    then show ?thesis by (intro exI [of _ "[]"]) (auto intro: run_nil)
  next
    case (Cons t us)
    obtain l z where z: "sys_step env y l z" "size z < size y"
      "answered l @ map task_request (sys_tasks z) = map task_request (sys_tasks y)"
      using head_step [OF Cons less.prems] by blast
    from less.IH [OF z(2) past_ok_step [OF z(1) less.prems]] obtain ls y' where
      "sys_run env z ls y'" "sys_tasks y' = []" "concat (map answered ls) = map task_request (sys_tasks z)"
      "length ls \<le> size z" by blast
    with z run_cons [OF z(1)] show ?thesis
      by (intro exI [of _ "l # ls"] exI [of _ y']) simp
  qed
qed

text \<open>The steps that work on a task, and those that bring one.\<close>

fun works :: "'row label \<Rightarrow> bool" where
  "works Worked = True"
| "works (Answered req a) = True"
| "works _ = False"

fun begins :: "'row label \<Rightarrow> bool" where
  "begins (Began req) = True"
| "begins _ = False"

lemma step_size:
  assumes "sys_step env y l y'"
  shows "of_bool (works l) + size y' \<le> size y + 3 * of_bool (begins l)"
  using assms
  by (induction rule: sys_step.induct) (simp_all add: size_system_ext_def)

end
