(* ===== verification/System_Spec.thy ===== *)
theory System_Spec
  imports System
begin

text \<open>
  What the running system of \<open>System\<close> guarantees its clients, and a concrete system that runs: an
  engine with two versions of its data, and a run in which a stale result survives the flush.
\<close>

subsection \<open>A concrete system\<close>

text \<open>An engine whose table is empty in state 0 and has two rows afterwards, and the directory
  before and after the first change event.\<close>

definition version_engine :: "(nat, string) session" where
  "version_engine =
     \<lparr>ctx_sql = (\<lambda>s q. (Inr q, s)),
      df_collect = (\<lambda>s df. (Inr (if s = 0 then [] else [one_column]), s)), df_with_params = (\<lambda>df ps. Inr df),
      df_schema = (\<lambda>df. b_schema one_column), parameter_names = (\<lambda>df. Inr []),
      parameter_types = (\<lambda>df. Inr [])\<rparr>"

definition version_env :: "(nat, string, rust_value option list, rust_value option list) server_env" where
  "version_env = \<lparr>session_api = version_engine, sql_parser = (\<lambda>_. None), encoder = list_encoder,
     param_decoders = sample_decoders\<rparr>"

definition the_query :: string where
  "the_query = ''SELECT n FROM t''"

definition cdc_files :: "string list \<Rightarrow> fs" where
  "cdc_files ps = \<lparr>is_dir = (\<lambda>p. True), read_dir = (\<lambda>p. Some (map Some ps)), read_to_string = (\<lambda>p. Some ''{}'')\<rparr>"

definition version_system :: "nat \<Rightarrow> batch list cache \<Rightarrow> task list \<Rightarrow> string list \<Rightarrow> string list \<Rightarrow> nat list \<Rightarrow> nat system" where
  "version_system s c ts seen files past =
     \<lparr>sys_server = \<lparr>sv_session = s, sv_cache = c\<rparr>, sys_tasks = ts,
      sys_cdc = \<lparr>iceberg_path = ''cdc'', processed = seen\<rparr>, sys_fs = cdc_files files, sys_past = past\<rparr>"

lemma version_query: "engine_query (session_api version_env) s q = (Inr (if s = 0 then [] else [one_column]), s)"
  by (simp add: version_env_def version_engine_def engine_query_def run_sql_def)

lemma the_query_facts:
  "is_cacheable the_query" "normalize_query (sql_parser version_env) q = normalize_lexical q"
proof -
  show "is_cacheable the_query" by code_simp
  show "normalize_query (sql_parser version_env) q = normalize_lexical q"
    by (simp add: version_env_def normalize_query_def)
qed

lemma miss_cache:
  assumes "hm_get (store (inner c)) (normalize_lexical sql) = None" and "is_cacheable sql"
  shows "serve_lookup version_env True \<lparr>sv_session = s, sv_cache = c\<rparr> now sql =
    (None, \<lparr>sv_session = s, sv_cache = snd (get_key c now (normalize_lexical sql))\<rparr>)"
proof -
  have "fst (get_key c now (normalize_lexical sql)) = None" using assms by (simp add: get_key_result)
  then show ?thesis by (simp add: serve_lookup_def cache_get_def the_query_facts case_prod_unfold)
qed

text \<open>The run that leaves a stale result: a query misses and executes on the old data; the data
  changes and its event arrives; the poller processes the event, while there is nothing to clear;
  then the query ends and stores its result.\<close>

definition missed_cache :: "batch list cache" where
  "missed_cache = snd (get_key fresh_cache 1 (normalize_lexical the_query))"

definition stale_cache :: "batch list cache" where
  "stale_cache = set_key missed_cache 2 (normalize_lexical the_query) []"

definition stale_system :: "nat system" where
  "stale_system = version_system 1 stale_cache [] [''cdc/1.json''] [''cdc/1.json''] [1, 0, 0]"

lemma missed_store: "store (inner missed_cache) = []" "max_entries missed_cache = 2"
  by (simp_all add: missed_cache_def get_key_store get_key_parts fresh_cache_def)

definition waiting_system :: "nat system" where
  "waiting_system = version_system 0 missed_cache [Waiting (SimpleQuery the_query)] [] [] [0]"

lemma waiting_reachable: "sys_reachable version_env waiting_system"
proof -
  let ?q = "SimpleQuery the_query"
  let ?y0 = "version_system 0 fresh_cache [] [] [] [0]"
  let ?y1 = "version_system 0 missed_cache [Waiting ?q] [] [] [0]"
  have "with_clock 2 60 = Inr fresh_cache" by (simp add: with_clock_def fresh_cache_def)
  then have "sys_start ?y0" by (auto simp: sys_start_def version_system_def cdc_new_def)
  then have r0: "sys_reachable version_env ?y0" by (rule start)
  have "serve_lookup version_env True (sys_server ?y0) 1 the_query =
      (None, \<lparr>sv_session = 0, sv_cache = missed_cache\<rparr>)"
    unfolding missed_cache_def version_system_def system.simps
    by (rule miss_cache) (simp_all add: fresh_cache_def the_query_facts)
  then have "sys_step version_env ?y0 (Began ?q) ?y1"
    using begin_miss [where req = ?q and env = version_env and y = ?y0 and now = 1 and sv = "\<lparr>sv_session = 0, sv_cache = missed_cache\<rparr>"]
    by (simp add: the_query_facts version_system_def)
  with r0 have "sys_reachable version_env ?y1" by (rule step)
  then show ?thesis by (simp only: waiting_system_def)
qed

lemma stale_reachable: "sys_reachable version_env stale_system"
proof -
  let ?q = "SimpleQuery the_query" and ?n = "''cdc/1.json''"
  let ?y1 = "version_system 0 missed_cache [Waiting ?q] [] [] [0]"
  let ?y2 = "version_system 0 missed_cache [Executed ?q (Inr [])] [] [] [0, 0]"
  let ?y3 = "version_system 1 missed_cache [Executed ?q (Inr [])] [] [?n] [1, 0, 0]"
  let ?y4 = "version_system 1 missed_cache [Executed ?q (Inr [])] [?n] [?n] [1, 0, 0]"
  note r1 = waiting_reachable [unfolded waiting_system_def]
  have "sys_step version_env ?y1 Worked ?y2"
    using execute [where y = ?y1 and ts = "[]" and req = ?q and us = "[]" and env = version_env and result = "Inr []" and s = 0]
    by (simp add: version_query) (simp add: version_system_def with_session_def)
  with r1 have r2: "sys_reachable version_env ?y2" by (rule step)
  have "sys_step version_env ?y2 Changed ?y3"
    using world_change [where env = version_env and y = ?y2 and s = 1 and f = "cdc_files [?n]"]
    by (simp add: version_system_def with_session_def)
  with r2 have r3: "sys_reachable version_env ?y3" by (rule step)
  have "is_json ?n" by code_simp
  then have "sync (cdc_files [?n]) \<lparr>iceberg_path = ''cdc'', processed = []\<rparr> missed_cache =
      (1, \<lparr>iceberg_path = ''cdc'', processed = [?n]\<rparr>, missed_cache)"
    by (simp add: sync_def read_new_local_events_def cdc_files_def cache_is_empty_def cache_len_def
        missed_store hs_insert_def)
  then have "sys_step version_env ?y3 (Synced 1) ?y4"
    using cdc_tick [of ?y3 1 "\<lparr>iceberg_path = ''cdc'', processed = [?n]\<rparr>" missed_cache version_env]
    by (simp add: version_system_def with_cache_def)
  with r3 have r4: "sys_reachable version_env ?y4" by (rule step)
  have "request_finish version_env (sys_server ?y4) 2 ?q (Inr []) =
      (Inr [Execution ''SELECT'' 0], \<lparr>sv_session = 1, sv_cache = stale_cache\<rparr>)"
    by (simp add: simple_finish_def batches_to_response_def batches_to_response_in_format_def
        serve_store_def the_query_facts cache_set_def stale_cache_def version_system_def)
  then have "sys_step version_env ?y4 (Answered ?q (Inr [Execution ''SELECT'' 0])) stale_system"
    using finish [of ?y4 "[]" ?q "Inr []" "[]" version_env 2]
    by (simp add: version_system_def stale_system_def)
  with r4 show ?thesis by (rule step)
qed

lemma stale_hit:
  "sys_step version_env stale_system (Hit (SimpleQuery the_query) (Inr [Execution ''SELECT'' 0]))
     (stale_system\<lparr>sys_server := \<lparr>sv_session = 1, sv_cache = snd (get_key stale_cache 3 (normalize_lexical the_query))\<rparr>\<rparr>)"
proof -
  have "fst (get_key stale_cache 3 (normalize_lexical the_query)) = Some []"
    by (simp add: get_key_result stale_cache_def set_key_store missed_store hmap hm_contains_def
        set_key_parts missed_cache_def get_key_parts fresh_cache_def)
  then have "serve_lookup version_env True (sys_server stale_system) 3 the_query =
      (Some [], \<lparr>sv_session = 1, sv_cache = snd (get_key stale_cache 3 (normalize_lexical the_query))\<rparr>)"
    by (simp add: serve_lookup_def cache_get_def the_query_facts case_prod_unfold stale_system_def version_system_def)
  then show ?thesis
    using answer_hit [where req = "SimpleQuery the_query" and env = version_env and y = stale_system and now = 3 and bs = "[]"]
    by (simp add: the_query_facts direct_answer_def batches_to_response_in_format_def)
qed

subsection \<open>Properties\<close>


lemma version_key: "key_decides version_env (\<lambda>sql. fst (engine_query (session_api version_env) s sql))"
  by (simp add: key_decides_def version_query)



text \<open>The same system with the event processed while the query still waits, or before it starts.\<close>

definition old_cache :: "batch list cache" where
  "old_cache = set_key fresh_cache 1 (normalize_lexical the_query) []"

lemma old_cache_nonempty: "\<not> cache_is_empty old_cache"
  by (simp add: cache_is_empty_def cache_len_def old_cache_def set_key_store hm_insert_def)

lemma tick_clears:
  "sys_step version_env (version_system 1 old_cache [] [] [''cdc/1.json''] [1, 0]) (Synced 1)
     (version_system 1 (cache_clear old_cache) [] [''cdc/1.json''] [''cdc/1.json''] [1, 0])"
proof -
  have "is_json ''cdc/1.json''" by code_simp
  then have "sync (cdc_files [''cdc/1.json'']) \<lparr>iceberg_path = ''cdc'', processed = []\<rparr> old_cache =
      (1, \<lparr>iceberg_path = ''cdc'', processed = [''cdc/1.json'']\<rparr>, cache_clear old_cache)"
    by (simp add: sync_def read_new_local_events_def cdc_files_def old_cache_nonempty hs_insert_def)
  then show ?thesis
    using cdc_tick [of "version_system 1 old_cache [] [] [''cdc/1.json''] [1, 0]" 1
        "\<lparr>iceberg_path = ''cdc'', processed = [''cdc/1.json'']\<rparr>" "cache_clear old_cache" version_env]
    by (simp add: version_system_def with_cache_def)
qed

lemma steady_query:
  "\<exists>y2 a. steady_run version_env (version_system 1 (cache_clear old_cache) [] [''cdc/1.json''] [''cdc/1.json''] [1, 0])
     [Began (SimpleQuery the_query), Worked, Answered (SimpleQuery the_query) a] y2"
proof -
  let ?q = "SimpleQuery the_query" and ?n = "[''cdc/1.json'']"
  let ?k = "normalize_lexical the_query"
  let ?c = "snd (get_key (cache_clear old_cache) 3 ?k)"
  let ?y1 = "version_system 1 (cache_clear old_cache) [] ?n ?n [1, 0]"
  let ?y2 = "version_system 1 ?c [Waiting ?q] ?n ?n [1, 0]"
  let ?y3 = "version_system 1 ?c [Executed ?q (Inr [one_column])] ?n ?n [1, 1, 0]"
  have "serve_lookup version_env True (sys_server ?y1) 3 the_query = (None, \<lparr>sv_session = 1, sv_cache = ?c\<rparr>)"
    unfolding version_system_def system.simps by (rule miss_cache) (simp_all add: the_query_facts)
  then have s1: "sys_step version_env ?y1 (Began ?q) ?y2"
    using begin_miss [where req = ?q and env = version_env and y = ?y1 and now = 3 and sv = "\<lparr>sv_session = 1, sv_cache = ?c\<rparr>"]
    by (simp add: the_query_facts version_system_def)
  have s2: "sys_step version_env ?y2 Worked ?y3"
    using execute [where y = ?y2 and ts = "[]" and req = ?q and us = "[]" and env = version_env and result = "Inr [one_column]" and s = 1]
    by (simp add: version_query) (simp add: version_system_def with_session_def)
  obtain a sv where f: "request_finish version_env (sys_server ?y3) 4 ?q (Inr [one_column]) = (a, sv)" by fastforce
  then have s3: "sys_step version_env ?y3 (Answered ?q a) (?y3\<lparr>sys_server := sv, sys_tasks := []\<rparr>)"
    using finish [of ?y3 "[]" ?q "Inr [one_column]" "[]" version_env 4 a sv] by (simp add: version_system_def)
  have same: "sv_session sv = 1"
    using request_finish_cached [OF f, of "\<lambda>k v. True"] by (simp add: rc.all_cached_def version_system_def)
  have "steady_run version_env ?y3 [Answered ?q a] (?y3\<lparr>sys_server := sv, sys_tasks := []\<rparr>)"
    by (rule steady_cons [OF s3]) (use same in \<open>auto simp: version_system_def intro: steady_nil\<close>)
  then have "steady_run version_env ?y2 [Worked, Answered ?q a] (?y3\<lparr>sys_server := sv, sys_tasks := []\<rparr>)"
    by (rule steady_cons [OF s2, rotated]) (simp add: version_system_def)
  then have "steady_run version_env ?y1 [Began (SimpleQuery the_query), Worked, Answered ?q a] (?y3\<lparr>sys_server := sv, sys_tasks := []\<rparr>)"
    by (rule steady_cons [OF s1, rotated]) (simp add: version_system_def)
  then show ?thesis by blast
qed







end
