(* ===== verification/Adbc.thy ===== *)
theory Adbc
  imports Postgres_Table
begin

text \<open>
  \<open>src/adbc_postgres.rs\<close>: the example query and the printer of its batches. The driver is a
  parameter: the steps from loading it to executing the statement are one function with its
  error, and reading the results is another. What \<open>print!\<close> and \<open>println!\<close> write is the returned
  text; Arrow's \<open>Display\<close> and \<open>Debug\<close> of a data type are parameters.
\<close>

text \<open>\<open>Display\<close> of an \<open>f32\<close>, as for \<open>f64\<close>; the fuel of the digit loops is that of \<open>f64\<close>.\<close>

definition f32_digits :: "f32 \<Rightarrow> nat list \<times> int" where
  "f32_digits b =
     (let e = f32_exp b; f = f32_frac b;
          m = (if e = 0 then f else f + 2 ^ 23);
          x = max 1 e - 150;
          up = 2 ^ nat x; dn = 2 ^ nat (- x);
          num = 4 * m * up; pl = 2 * up; mi = (if f = 0 \<and> e > 1 then 1 else 2) * up;
          scale = 4 * dn; incl = even m;
          (scale, k) = scale_up 400 incl (num + pl) scale 0;
          (s, k) = (if k = 0 then scale_down 400 incl (num + pl) scale 1 0 else (1, k));
          (ds, u) = shortest_digits 17 incl (s * num) (s * pl) (s * mi) scale
      in carry_up ds u k)"

definition f32_display :: "f32 \<Rightarrow> string" where
  "f32_display b =
     (if f32_exp b = 255
      then (if f32_frac b \<noteq> 0 then ''NaN'' else if 2 ^ 31 \<le> uint b then ''-inf'' else ''inf'')
      else (if 2 ^ 31 \<le> uint b then ''-'' else []) @
           (if f32_exp b = 0 \<and> f32_frac b = 0 then ''0''
            else case f32_digits b of (ds, k) \<Rightarrow> dec_str ds k))"

lemma f32_display_examples:
  "f32_display 0x3DCCCCCD = ''0.1''" "f32_display 0xC0900000 = ''-4.5''"
  "f32_display 0x4B800000 = ''16777216''" "f32_display 0 = ''0''"
  by code_simp+

definition show_bool :: "bool \<Rightarrow> string" where
  "show_bool b = (if b then ''true'' else ''false'')"

definition newline :: string where
  "newline = [CHR 0x0A]"

text \<open>One non-null cell, by the type of its field. A cell of another type cannot occur in a batch,
  and the downcast of the code would fail.\<close>

definition print_value :: "(data_type \<Rightarrow> string) \<Rightarrow> data_type \<Rightarrow> scalar \<Rightarrow> string" where
  "print_value debug dt v =
     (case (dt, v) of
        (Int16, SInt16 (Some i)) \<Rightarrow> show_int i
      | (Int32, SInt32 (Some i)) \<Rightarrow> show_int i
      | (Int64, SInt64 (Some i)) \<Rightarrow> show_int i
      | (Float32, SFloat32 (Some f)) \<Rightarrow> f32_display f
      | (Float64, SFloat64 (Some f)) \<Rightarrow> f64_display f
      | (Utf8, SUtf8 (Some s)) \<Rightarrow> CHR 0x27 # s @ [CHR 0x27]
      | (Timestamp Nanosecond tz, STimestampNanosecond (Some n) _) \<Rightarrow>
          show_int n @ ''ns'' @ (case tz of Some z \<Rightarrow> '' ('' @ z @ '')'' | None \<Rightarrow> [])
      | (Boolean, SBoolean (Some b)) \<Rightarrow> show_bool b
      | (Date32, SDate32 (Some d)) \<Rightarrow> show_int d @ ''d''
      | (Binary, SBinary (Some b)) \<Rightarrow> ''[binary data: '' @ show_nat (length b) @ '' bytes]''
      | _ \<Rightarrow> ''[unsupported: '' @ debug dt @ '']'')"

definition print_cell :: "(data_type \<Rightarrow> string) \<Rightarrow> data_type \<Rightarrow> scalar \<Rightarrow> string" where
  "print_cell debug dt v = (if scalar_null v then ''NULL'' else print_value debug dt v)"

text \<open>The loop over the rows of a column, with the comma after every cell but the last.\<close>

definition print_cells :: "(data_type \<Rightarrow> string) \<Rightarrow> data_type \<Rightarrow> scalar list \<Rightarrow> string" where
  "print_cells debug dt vs =
     concat (map (\<lambda>i. print_cell debug dt (vs ! i) @ (if i < length vs - 1 then '', '' else []))
       [0..<length vs])"

definition print_column ::
  "(data_type \<Rightarrow> string) \<Rightarrow> (data_type \<Rightarrow> string) \<Rightarrow> field \<Rightarrow> data_type \<times> scalar list \<Rightarrow> string" where
  "print_column display debug fld arr =
     ''Column '' @ CHR 0x27 # f_name fld @ CHR 0x27 # '' ('' @ display (f_type fld) @ ''): ['' @
     print_cells debug (f_type fld) (snd arr) @ '']'' @ newline"

definition print_arrow_batch :: "(data_type \<Rightarrow> string) \<Rightarrow> (data_type \<Rightarrow> string) \<Rightarrow> batch \<Rightarrow> string" where
  "print_arrow_batch display debug b =
     (if b_rows b = 0 then []
      else ''--- Batch ('' @ show_nat (b_rows b) @ '' rows) ---'' @ newline @
           concat (map (\<lambda>i. print_column display debug (b_schema b ! i) (b_columns b ! i))
             [0..<length (b_columns b)]) @
           ''--- End Batch ---'' @ newline)"

record adbc_driver =
  adbc_execute :: "string \<Rightarrow> string \<Rightarrow> string + (string + batch list)"
  show_type :: "data_type \<Rightarrow> string"
  debug_type :: "data_type \<Rightarrow> string"

text \<open>The text printed, or the error.\<close>

definition adbc_postgres_query_example :: "adbc_driver \<Rightarrow> string \<Rightarrow> string \<Rightarrow> igloo_error + string" where
  "adbc_postgres_query_example drv uri sql =
     and_then (map_err EAdbcCore (adbc_execute drv uri sql)) (\<lambda>collected.
       (case collected of
          Inr bs \<Rightarrow> Inr (concat (map (print_arrow_batch (show_type drv) (debug_type drv)) bs))
        | Inl e \<Rightarrow> Inl (EArrow e)))"

text \<open>The commas separate the cells.\<close>

lemma concat_separated:
  "concat (map (\<lambda>i. f (xs ! i) @ (if i < length xs - 1 then sep else [])) [0..<length xs]) = join sep (map f xs)"
proof (induction xs)
  case (Cons x xs)
  have "concat (map (\<lambda>i. f ((x # xs) ! i) @ (if i < length (x # xs) - 1 then sep else [])) [0..<length (x # xs)]) =
      f x @ (if xs = [] then [] else sep) @
      concat (map (\<lambda>i. f (xs ! i) @ (if Suc i < length xs then sep else [])) [0..<length xs])"
    by (simp add: upt_conv_Cons flip: map_Suc_upt del: upt_Suc) (simp add: comp_def)
  also have "(\<lambda>i. f (xs ! i) @ (if Suc i < length xs then sep else [])) =
      (\<lambda>i. f (xs ! i) @ (if i < length xs - 1 then sep else []))"
    by (auto simp: fun_eq_iff)
  finally show ?case
    using Cons.IH by (cases xs) (simp_all add: join_Cons del: upt_Suc)
qed simp

lemma print_cells_join: "print_cells debug dt vs = join '', '' (map (print_cell debug dt) vs)"
  unfolding print_cells_def by (rule concat_separated)

end
