(* ===== verification/Crypto.thy ===== *)
theory Crypto
  imports Engine Rust_Parse Cdc_Sync
begin

text \<open>
  \<open>src/crypto_metrics.rs\<close>: the metric queries, the sample data and the demo. The arithmetic of
  the machine's \<open>f64\<close> is the record \<open>float_ops\<close>; its literals are read by \<open>parse_f64\<close>. The file
  system is a state with the operations the demo calls; the session is that of \<open>Engine\<close>.
\<close>

definition crypto_table :: string where
  "crypto_table = ''crypto_ohlcv''"

definition sample_assets :: "string list" where
  "sample_assets = [''BTC'', ''ETH'', ''SOL'']"

definition plain_field :: "string \<Rightarrow> data_type \<Rightarrow> field" where
  "plain_field n t = \<lparr>f_name = n, f_type = t, f_nullable = False, f_meta = Map.empty\<rparr>"

definition crypto_ohlcv_schema :: schema where
  "crypto_ohlcv_schema =
     [plain_field ''ts'' (Timestamp Nanosecond None), plain_field ''asset'' Utf8,
      plain_field ''open'' Float64, plain_field ''high'' Float64, plain_field ''low'' Float64,
      plain_field ''close'' Float64, plain_field ''volume'' Float64]"

definition register_crypto_table ::
  "('s, 'c, ('cell, 'l) provider) registry \<Rightarrow> (string \<Rightarrow> string + 'u) \<Rightarrow> ('u \<Rightarrow> schema \<Rightarrow> string + 'l) \<Rightarrow>
   's \<Rightarrow> string \<Rightarrow> igloo_error + 's" where
  "register_crypto_table reg parse_url listing s dir =
     and_then (map_err EDataFusion (parse_url dir)) (\<lambda>url.
     and_then (map_err EDataFusion (listing url crypto_ohlcv_schema)) (\<lambda>table.
     map_err EDataFusion (ctx_register_table reg s crypto_table (ListingProvider table))))"

subsection \<open>The queries\<close>

definition sql_latest_close :: string where
  "sql_latest_close =
     ''SELECT asset, ts, close FROM ('' @ ''SELECT asset, ts, close, '' @
     ''ROW_NUMBER() OVER (PARTITION BY asset ORDER BY ts DESC) AS rn '' @
     ''FROM '' @ crypto_table @ '') t WHERE rn = 1 ORDER BY asset''"

definition sql_daily_volume :: string where
  "sql_daily_volume =
     ''SELECT asset, date_trunc('day', ts) AS day, SUM(volume) AS volume '' @
     ''FROM '' @ crypto_table @ '' GROUP BY asset, date_trunc('day', ts) '' @
     ''ORDER BY asset, day''"

definition sql_daily_vwap :: string where
  "sql_daily_vwap =
     ''SELECT asset, date_trunc('day', ts) AS day, '' @
     ''SUM(close * volume) / SUM(volume) AS vwap '' @
     ''FROM '' @ crypto_table @ '' GROUP BY asset, date_trunc('day', ts) '' @
     ''ORDER BY asset, day''"

text \<open>\<open>usize\<close> subtraction saturates, as on \<open>nat\<close>.\<close>

definition sql_sma :: "nat \<Rightarrow> string" where
  "sql_sma window =
     (let preceding = window - 1
      in ''SELECT asset, ts, close, '' @
         ''AVG(close) OVER (PARTITION BY asset ORDER BY ts '' @
         ''ROWS BETWEEN '' @ show_nat preceding @ '' PRECEDING AND CURRENT ROW) AS sma_'' @ show_nat window @
         '' FROM '' @ crypto_table @ '' ORDER BY asset, ts'')"

definition sql_rolling_volatility :: "nat \<Rightarrow> string" where
  "sql_rolling_volatility window =
     (let preceding = window - 1
      in ''SELECT asset, ts, '' @
         ''STDDEV_SAMP(log_return) OVER (PARTITION BY asset ORDER BY ts '' @
         ''ROWS BETWEEN '' @ show_nat preceding @ '' PRECEDING AND CURRENT ROW) AS volatility_'' @
         show_nat window @ '' FROM (SELECT asset, ts, '' @
         ''LN(close / LAG(close) OVER (PARTITION BY asset ORDER BY ts)) AS log_return '' @
         ''FROM '' @ crypto_table @ '') r ORDER BY asset, ts'')"

definition sql_max_drawdown :: string where
  "sql_max_drawdown =
     ''SELECT asset, MIN(close / running_max - 1.0) AS max_drawdown '' @
     ''FROM (SELECT asset, close, '' @
     ''MAX(close) OVER (PARTITION BY asset ORDER BY ts '' @
     ''ROWS BETWEEN UNBOUNDED PRECEDING AND CURRENT ROW) AS running_max '' @
     ''FROM '' @ crypto_table @ '') t GROUP BY asset ORDER BY asset''"

definition metrics_suite :: "(string \<times> string) list" where
  "metrics_suite =
     [(''Latest close'', sql_latest_close),
      (''Daily volume'', sql_daily_volume),
      (''Daily VWAP'', sql_daily_vwap),
      (''SMA(24) of close'', sql_sma 24),
      (''Rolling 24h log-return volatility'', sql_rolling_volatility 24),
      (''Maximum drawdown'', sql_max_drawdown)]"

subsection \<open>Sample data\<close>

record float_ops =
  f_add :: "f64 \<Rightarrow> f64 \<Rightarrow> f64"
  f_sub :: "f64 \<Rightarrow> f64 \<Rightarrow> f64"
  f_mul :: "f64 \<Rightarrow> f64 \<Rightarrow> f64"
  f_div :: "f64 \<Rightarrow> f64 \<Rightarrow> f64"
  f_max :: "f64 \<Rightarrow> f64 \<Rightarrow> f64"
  f_min :: "f64 \<Rightarrow> f64 \<Rightarrow> f64"
  f_sin :: "f64 \<Rightarrow> f64"
  f_of_nat :: "nat \<Rightarrow> f64"

definition f_lit :: "string \<Rightarrow> f64" where
  "f_lit s = (case parse_f64 s of Some f \<Rightarrow> f | None \<Rightarrow> 0)"

text \<open>The linear congruential generator; \<open>noise\<close> steps it and scales its top 53 bits.\<close>

definition lcg_step :: "u64 \<Rightarrow> u64" where
  "lcg_step x = x * 6364136223846793005 + 1442695040888963407"

definition lcg_seed :: "nat \<Rightarrow> u64" where
  "lcg_seed asset_idx = xor 0x9E3779B97F4A7C15 (of_nat asset_idx + 1)"

definition noise :: "float_ops \<Rightarrow> u64 \<Rightarrow> f64 \<times> u64" where
  "noise ops lcg =
     (let lcg = lcg_step lcg in (f_div ops (f_of_nat ops (unat (drop_bit 11 lcg))) (f_of_nat ops (2 ^ 53)), lcg))"

record candle =
  k_ts :: "64 word"
  k_asset :: string
  k_open :: f64
  k_high :: f64
  k_low :: f64
  k_close :: f64
  k_volume :: f64

definition base_ns :: "64 word" where "base_ns = 1700000000000000000"
definition hour_ns :: "64 word" where "hour_ns = 3600 * 1000000000"

text \<open>One iteration of the inner loop: the candle of hour \<open>i\<close> and the new state of the generator.\<close>

definition make_candle :: "float_ops \<Rightarrow> string \<Rightarrow> f64 \<Rightarrow> nat \<Rightarrow> f64 \<Rightarrow> u64 \<Rightarrow> candle \<times> u64" where
  "make_candle ops symbol base_price i prev_close lcg =
     (let drift = f_mul ops (f_sin ops (f_div ops (f_of_nat ops i) (f_lit ''12.0''))) (f_lit ''0.02'');
          (n1, lcg) = noise ops lcg;
          shock = f_mul ops (f_sub ops n1 (f_lit ''0.5'')) (f_lit ''0.02'');
          c = f_max ops
                (f_mul ops prev_close
                   (f_add ops (f_add ops (f_lit ''1.0'') (f_div ops drift (f_lit ''24.0''))) shock))
                (f_mul ops base_price (f_lit ''0.5''));
          o' = prev_close;
          (n2, lcg) = noise ops lcg;
          h = f_mul ops (f_max ops o' c) (f_add ops (f_lit ''1.0'') (f_mul ops n2 (f_lit ''0.005'')));
          (n3, lcg) = noise ops lcg;
          l = f_mul ops (f_min ops o' c) (f_sub ops (f_lit ''1.0'') (f_mul ops n3 (f_lit ''0.005'')));
          (n4, lcg) = noise ops lcg;
          v = f_mul ops base_price (f_add ops (f_lit ''50.0'') (f_mul ops n4 (f_lit ''25.0'')))
      in (\<lparr>k_ts = base_ns + of_nat i * hour_ns, k_asset = symbol, k_open = o', k_high = h, k_low = l,
           k_close = c, k_volume = v\<rparr>, lcg))"

fun asset_candles :: "float_ops \<Rightarrow> string \<Rightarrow> f64 \<Rightarrow> nat list \<Rightarrow> f64 \<Rightarrow> u64 \<Rightarrow> candle list" where
  "asset_candles ops symbol base_price [] prev_close lcg = []"
| "asset_candles ops symbol base_price (i # is) prev_close lcg =
     (case make_candle ops symbol base_price i prev_close lcg of
        (k, lcg) \<Rightarrow> k # asset_candles ops symbol base_price is (k_close k) lcg)"

definition base_prices :: "f64 list" where
  "base_prices = [f_lit ''40000.0'', f_lit ''2500.0'', f_lit ''90.0'']"

definition sample_candles :: "float_ops \<Rightarrow> nat \<Rightarrow> candle list" where
  "sample_candles ops hours =
     concat (map (\<lambda>(asset_idx, symbol).
         asset_candles ops symbol (base_prices ! asset_idx) [0..<hours] (base_prices ! asset_idx) (lcg_seed asset_idx))
       (enumerate 0 sample_assets))"

text \<open>The columns handed to Arrow.\<close>

definition candle_columns :: "candle list \<Rightarrow> (data_type \<times> scalar list) list" where
  "candle_columns ks =
     [(Timestamp Nanosecond None, map (\<lambda>k. STimestampNanosecond (Some (sint (k_ts k))) None) ks),
      (Utf8, map (\<lambda>k. SUtf8 (Some (k_asset k))) ks),
      (Float64, map (\<lambda>k. SFloat64 (Some (k_open k))) ks),
      (Float64, map (\<lambda>k. SFloat64 (Some (k_high k))) ks),
      (Float64, map (\<lambda>k. SFloat64 (Some (k_low k))) ks),
      (Float64, map (\<lambda>k. SFloat64 (Some (k_close k))) ks),
      (Float64, map (\<lambda>k. SFloat64 (Some (k_volume k))) ks)]"

subsection \<open>The demo\<close>

record 'w disk =
  disk_view :: "'w \<Rightarrow> fs"
  create_dir_all :: "'w \<Rightarrow> string \<Rightarrow> string + 'w"
  create_file :: "'w \<Rightarrow> string \<Rightarrow> string + 'w"
  write_parquet :: "'w \<Rightarrow> string \<Rightarrow> schema \<Rightarrow> batch \<Rightarrow> (string + unit) \<times> 'w"

definition path_join :: "string \<Rightarrow> string \<Rightarrow> string" where
  "path_join dir name = (if dir = [] \<or> last dir = CHR ''/'' then dir @ name else dir @ ''/'' @ name)"

definition write_sample_ohlcv ::
  "'w disk \<Rightarrow> (schema \<Rightarrow> (data_type \<times> scalar list) list \<Rightarrow> string + batch) \<Rightarrow> float_ops \<Rightarrow> 'w \<Rightarrow> string \<Rightarrow> nat \<Rightarrow>
   (igloo_error + unit) \<times> 'w" where
  "write_sample_ohlcv dsk mk_batch ops w dir hours =
     (case create_dir_all dsk w dir of
        Inl e \<Rightarrow> (Inl (EIo e), w)
      | Inr w \<Rightarrow>
          (case mk_batch crypto_ohlcv_schema (candle_columns (sample_candles ops hours)) of
             Inl e \<Rightarrow> (Inl (EArrow e), w)
           | Inr b \<Rightarrow>
               (case create_file dsk w (path_join dir ''sample_ohlcv.parquet'') of
                  Inl e \<Rightarrow> (Inl (EIo e), w)
                | Inr w \<Rightarrow>
                    (case write_parquet dsk w (path_join dir ''sample_ohlcv.parquet'') crypto_ohlcv_schema b of
                       (r, w) \<Rightarrow> (map_err EParquet r, w)))))"

definition has_parquet :: "fs \<Rightarrow> string \<Rightarrow> igloo_error + bool" where
  "has_parquet f dir =
     (if \<not> is_dir f dir then Inr False
      else (case read_dir f dir of
              None \<Rightarrow> Inl (EIo ''read_dir'')
            | Some es \<Rightarrow> Inr (list_ex (\<lambda>e. case e of Some p \<Rightarrow> extension p = Some ''parquet'' | None \<Rightarrow> False) es)))"

text \<open>The loop over the metrics returns the text it printed before it ended, and the error it ended
  with.\<close>

fun run_metrics ::
  "('s, 'df) session \<Rightarrow> (batch list \<Rightarrow> string + string) \<Rightarrow> 's \<Rightarrow> (string \<times> string) list \<Rightarrow>
   (igloo_error option \<times> string)" where
  "run_metrics api pretty s [] = (None, [])"
| "run_metrics api pretty s ((name, sql) # ms) =
     (case engine_query api s sql of
        (Inl e, s) \<Rightarrow> (Some e, [])
      | (Inr bs, s) \<Rightarrow>
          let title = [CHR 0x0A] @ ''== '' @ name @ '' =='' @ [CHR 0x0A]
          in (case pretty bs of
                Inl e \<Rightarrow> (Some (EArrow e), title)
              | Inr out \<Rightarrow>
                  (case run_metrics api pretty s ms of
                     (r, text) \<Rightarrow> (r, title @ out @ [CHR 0x0A] @ text))))"

definition prepare_data ::
  "'w disk \<Rightarrow> (schema \<Rightarrow> (data_type \<times> scalar list) list \<Rightarrow> string + batch) \<Rightarrow> float_ops \<Rightarrow> 'w \<Rightarrow> string \<Rightarrow>
   (igloo_error + unit) \<times> 'w" where
  "prepare_data dsk mk_batch ops w dir =
     (case has_parquet (disk_view dsk w) dir of
        Inl e \<Rightarrow> (Inl e, w)
      | Inr True \<Rightarrow> (Inr (), w)
      | Inr False \<Rightarrow> write_sample_ohlcv dsk mk_batch ops w dir (24 * 7))"

definition run_crypto_demo ::
  "'w disk \<Rightarrow> (schema \<Rightarrow> (data_type \<times> scalar list) list \<Rightarrow> string + batch) \<Rightarrow> float_ops \<Rightarrow>
   ('s, 'c, ('cell, 'l) provider) registry \<Rightarrow> (string \<Rightarrow> string + 'u) \<Rightarrow> ('u \<Rightarrow> schema \<Rightarrow> string + 'l) \<Rightarrow>
   ('s, 'df) session \<Rightarrow> (batch list \<Rightarrow> string + string) \<Rightarrow> 's \<Rightarrow> 'w \<Rightarrow> string \<Rightarrow>
   (igloo_error option \<times> string) \<times> 'w" where
  "run_crypto_demo dsk mk_batch ops reg parse_url listing api pretty ctx w dir =
     (case prepare_data dsk mk_batch ops w dir of
        (Inl e, w) \<Rightarrow> ((Some e, []), w)
      | (Inr u, w) \<Rightarrow>
          (case register_crypto_table reg parse_url listing ctx dir of
             Inl e \<Rightarrow> ((Some e, []), w)
           | Inr s \<Rightarrow> (run_metrics api pretty s metrics_suite, w)))"

subsection \<open>What the sample holds\<close>

lemma noise_top_bits: "unat (drop_bit 11 (lcg :: u64)) < 2 ^ 53"
proof -
  have "unat lcg < 2 ^ 64" using unsigned_less [of lcg, where ?'a = nat] by simp
  then have "unat lcg div 2 ^ 11 < 2 ^ 53" by (simp add: less_mult_imp_div_less)
  moreover have "unat (drop_bit 11 lcg) = unat lcg div 2 ^ 11"
    by (simp only: unat_drop_bit_eq) (simp only: drop_bit_eq_div)
  ultimately show ?thesis by simp
qed

lemma make_candle_parts:
  "k_asset (fst (make_candle ops a b i p lcg)) = a"
  "k_ts (fst (make_candle ops a b i p lcg)) = base_ns + of_nat i * hour_ns"
  "k_open (fst (make_candle ops a b i p lcg)) = p"
  by (simp_all add: make_candle_def Let_def split: prod.splits)

lemma asset_candles_keys:
  "map (\<lambda>k. (k_asset k, k_ts k)) (asset_candles ops a b is p lcg) =
   map (\<lambda>i. (a, base_ns + of_nat i * hour_ns)) is"
proof (induction "is" arbitrary: p lcg)
  case (Cons i "is")
  then show ?case
    using make_candle_parts [of ops a b i p lcg] by (auto split: prod.splits)
qed simp

text \<open>Each candle opens at the close of the one before it.\<close>

lemma asset_candles_open:
  "map k_open (asset_candles ops a b is p lcg) =
   take (length is) (p # map k_close (asset_candles ops a b is p lcg))"
proof (induction "is" arbitrary: p lcg)
  case (Cons i "is")
  then show ?case
    using make_candle_parts [of ops a b i p lcg] by (auto split: prod.splits)
qed simp

lemma sint_in_range: "- (2 ^ 63) \<le> x \<Longrightarrow> x < 2 ^ 63 \<Longrightarrow> sint (word_of_int x :: 64 word) = x"
  by (simp add: signed_of_int signed_take_bit_int_eq_self_iff)

lemma candle_time:
  assumes "i < 2000000"
  shows "sint (base_ns + of_nat i * hour_ns) = 1700000000000000000 + int i * 3600000000000"
proof -
  let ?x = "1700000000000000000 + int i * 3600000000000"
  have "base_ns + of_nat i * hour_ns = word_of_int ?x"
    by (simp add: base_ns_def hour_ns_def)
  moreover have "?x < 2 ^ 63" using assms by simp
  then have "sint (word_of_int ?x :: 64 word) = ?x" by (intro sint_in_range) simp_all
  ultimately show ?thesis by (simp only:)
qed

text \<open>The sample has \<open>hours\<close> candles per asset, asset after asset, exactly an hour apart; up to two
  million hours no timestamp overflows.\<close>

lemma sample_candle_times:
  assumes "hours \<le> 2000000"
  shows "map (\<lambda>k. (k_asset k, sint (k_ts k))) (sample_candles ops hours) =
    concat (map (\<lambda>a. map (\<lambda>i. (a, 1700000000000000000 + int i * 3600000000000)) [0..<hours]) sample_assets)"
proof -
  have "map (\<lambda>k. (k_asset k, sint (k_ts k))) (asset_candles ops a b [0..<hours] p lcg) =
      map (\<lambda>i. (a, 1700000000000000000 + int i * 3600000000000)) [0..<hours]" for a b p lcg
  proof -
    have "map (\<lambda>k. (k_asset k, sint (k_ts k))) (asset_candles ops a b [0..<hours] p lcg) =
        map (\<lambda>(a, t). (a, sint t)) (map (\<lambda>k. (k_asset k, k_ts k)) (asset_candles ops a b [0..<hours] p lcg))"
      by simp
    also have "\<dots> = map (\<lambda>i. (a, sint (base_ns + of_nat i * hour_ns))) [0..<hours]"
      unfolding asset_candles_keys by simp
    also have "\<dots> = map (\<lambda>i. (a, 1700000000000000000 + int i * 3600000000000)) [0..<hours]"
      using assms by (intro map_cong) (simp_all add: candle_time)
    finally show ?thesis .
  qed
  then show ?thesis
    by (simp add: sample_candles_def sample_assets_def)
qed

lemma sample_candle_count: "hours \<le> 2000000 \<Longrightarrow> length (sample_candles ops hours) = 3 * hours"
  using arg_cong [OF sample_candle_times, of hours length ops] by (simp add: sample_assets_def)

text \<open>The opening prices of one asset: the base price, then the closing prices.\<close>

definition opens_follow :: "f64 \<Rightarrow> candle list \<Rightarrow> bool" where
  "opens_follow p ks \<longleftrightarrow> map k_open ks = take (length ks) (p # map k_close ks)"

lemma asset_candles_length [simp]: "length (asset_candles ops a b is p lcg) = length is"
  using arg_cong [OF asset_candles_keys, of length ops a b "is" p lcg] by simp

lemma asset_candles_follow: "opens_follow p (asset_candles ops a b is p lcg)"
  by (simp add: opens_follow_def asset_candles_open)

lemma filter_asset_candles:
  "filter (\<lambda>k. k_asset k = s) (asset_candles ops a b is p lcg) = (if s = a then asset_candles ops a b is p lcg else [])"
proof -
  have "\<forall>k \<in> set (asset_candles ops a b is p lcg). k_asset k = a"
  proof
    fix k
    assume "k \<in> set (asset_candles ops a b is p lcg)"
    then have "(k_asset k, k_ts k) \<in> set (map (\<lambda>k. (k_asset k, k_ts k)) (asset_candles ops a b is p lcg))" by auto
    then show "k_asset k = a" unfolding asset_candles_keys by auto
  qed
  then show ?thesis by (auto intro: filter_True filter_False)
qed

lemma sample_of_asset:
  assumes "i < length sample_assets"
  shows "\<exists>lcg. filter (\<lambda>k. k_asset k = sample_assets ! i) (sample_candles ops hours) =
    asset_candles ops (sample_assets ! i) (base_prices ! i) [0..<hours] (base_prices ! i) lcg"
proof -
  have "i = 0 \<or> i = 1 \<or> i = 2" using assms by (auto simp: sample_assets_def)
  then show ?thesis
    by (intro exI [of _ "lcg_seed i"])
      (auto simp: sample_candles_def sample_assets_def filter_asset_candles numeral_2_eq_2)
qed

text \<open>Data that is already there is left alone.\<close>

lemma demo_keeps_data:
  "has_parquet (disk_view dsk w) dir = Inr True \<Longrightarrow>
   snd (run_crypto_demo dsk mk_batch ops reg parse_url listing api pretty ctx w dir) = w"
  by (simp add: run_crypto_demo_def prepare_data_def split: sum.splits)

subsection \<open>Properties\<close>



end
