(* ===== verification/Igloo_Main.thy ===== *)
theory Igloo_Main
  imports System_Spec Engine_Spec Config_Spec Adbc Crypto
begin

text \<open>
  \<open>src/main.rs\<close>, and the start of \<open>serve\<close> in \<open>src/server.rs\<close>: how the components are put
  together. What the process is given is the record \<open>world\<close>; a run answers how it ended and what
  it printed. \<open>process::exit\<close> is \<open>Exit\<close> with the error shown, a failed assertion, \<open>expect\<close> or
  index is \<open>Aborted\<close>, and a server that listens is \<open>Serving\<close>, with its state, its listener for
  changes and the polling interval. A \<open>Duration\<close> of seconds is its nanoseconds.
\<close>

record ('s, 'c, 'cell, 'l, 'df, 'u, 'w) world =
  w_args :: "string list"
  w_env :: env
  w_exists :: "string \<Rightarrow> bool"
  w_read :: "string \<Rightarrow> string + string"
  w_toml :: "string \<Rightarrow> string + file_config"
  w_registry :: "('s, 'c, ('cell, 'l) provider) registry"
  w_parse_url :: "string \<Rightarrow> string + 'u"
  w_listing :: "'u \<Rightarrow> schema \<Rightarrow> string + 'l"
  w_connect :: "string \<Rightarrow> string + 'cell pg_client"
  w_info :: "'cell pg_client \<Rightarrow> string list \<Rightarrow> string list option \<Rightarrow> string + info_row list"
  w_context :: 's
  w_plain_context :: 's
  w_api :: "('s, 'df) session"
  w_parser :: "string \<Rightarrow> string list option"
  w_pretty :: "batch list \<Rightarrow> string + string"
  w_adbc :: adbc_driver
  w_fs :: fs
  w_bind :: "string \<Rightarrow> string + unit"
  w_disk :: "'w disk"
  w_disk_state :: 'w
  w_mk_batch :: "schema \<Rightarrow> (data_type \<times> scalar list) list \<Rightarrow> string + batch"
  w_floats :: float_ops

datatype 's outcome =
    Exit nat igloo_error
  | Returned "igloo_error option"
  | Aborted string
  | Serving "'s server" cdc_listener nat

definition nanoseconds :: "nat \<Rightarrow> nat" where
  "nanoseconds secs = secs * 1000000000"

text \<open>\<open>Cache::new\<close>: the system clock is among the arguments of the operations.\<close>

definition cache_new :: "nat \<Rightarrow> nat \<Rightarrow> cache_panic + 'v cache" where
  "cache_new max_n ttl_ns = with_clock max_n ttl_ns"

definition start_engine ::
  "('s, 'c, 'cell, 'l, 'df, 'u, 'w) world \<Rightarrow> config \<Rightarrow> start_error + 's" where
  "start_engine w c =
     engine_new (w_registry w) (w_parse_url w) (w_listing w) (w_connect w) (w_info w) (w_context w)
       (parquet_path c) (postgres_sources c)"

definition demo_query :: string where
  "demo_query = ''SELECT i.user_id, i.data, p.extra_info FROM iceberg i JOIN pg_table p ON i.user_id = p.user_id WHERE i.user_id = 42''"

text \<open>The query of the demo through the cache: the error, or the text printed and the new cache.\<close>

definition demo_answer ::
  "('s, 'c, 'cell, 'l, 'df, 'u, 'w) world \<Rightarrow> 's \<Rightarrow> batch list cache \<Rightarrow> nat \<Rightarrow> nat \<Rightarrow>
   igloo_error + string \<times> batch list cache" where
  "demo_answer w s cache now later =
     (case cache_get (w_parser w) cache now demo_query of
        (Some bs, cache) \<Rightarrow>
          and_then (map_err EArrow (w_pretty w bs)) (\<lambda>out.
          Inr (''Cached result:'' @ newline @ out @ newline, cache))
      | (None, cache) \<Rightarrow>
          and_then (fst (engine_query (w_api w) s demo_query)) (\<lambda>bs.
          and_then (map_err EArrow (w_pretty w bs)) (\<lambda>out.
          Inr (''Cache miss. Executed with DataFusion:'' @ newline @ out @ newline,
               cache_set (w_parser w) cache later demo_query bs))))"

definition run_demo ::
  "('s, 'c, 'cell, 'l, 'df, 'u, 'w) world \<Rightarrow> config \<Rightarrow> nat \<Rightarrow> nat \<Rightarrow> 's outcome \<times> string" where
  "run_demo w c now later =
     (case cache_new (cache_max_entries c) (nanoseconds (cache_ttl c)) of
        Inl p \<Rightarrow> (Aborted ''cache'', [])
      | Inr cache \<Rightarrow>
          (case start_engine w c of
             Inl (Failed e) \<Rightarrow> (Returned (Some e), [])
           | Inl (Panicked m) \<Rightarrow> (Aborted m, [])
           | Inr s \<Rightarrow>
               (case demo_answer w s cache now later of
                  Inl e \<Rightarrow> (Returned (Some e), [])
                | Inr (out, cache) \<Rightarrow>
                    (case primary_source c of
                       None \<Rightarrow> (Aborted ''index out of bounds'', out)
                     | Some src \<Rightarrow>
                         (case adbc_postgres_query_example (w_adbc w) (expose (src_uri src)) ''SELECT 1 AS test_col'' of
                            Inl e \<Rightarrow> (Returned (Some e), out)
                          | Inr text \<Rightarrow>
                              (case sync (w_fs w) (cdc_new (cdc_path c)) cache of
                                 (n, l, cache) \<Rightarrow> (Returned None, out @ text)))))))"

text \<open>\<open>server::serve\<close>: bind the address and answer on it from then on.\<close>

definition server_serve ::
  "('s, 'c, 'cell, 'l, 'df, 'u, 'w) world \<Rightarrow> 's server \<Rightarrow> string \<Rightarrow> igloo_error + 's server" where
  "server_serve w sv addr = and_then (map_err EIo (w_bind w addr)) (\<lambda>_. Inr sv)"

definition serve :: "('s, 'c, 'cell, 'l, 'df, 'u, 'w) world \<Rightarrow> config \<Rightarrow> 's outcome" where
  "serve w c =
     (case require_listen_addr c of
        Inl e \<Rightarrow> Exit 2 (EConfig e)
      | Inr addr \<Rightarrow>
          (case start_engine w c of
             Inl (Failed e) \<Rightarrow> Returned (Some e)
           | Inl (Panicked m) \<Rightarrow> Aborted m
           | Inr s \<Rightarrow>
               (case cache_new (cache_max_entries c) (nanoseconds (cache_ttl c)) of
                  Inl p \<Rightarrow> Aborted ''cache''
                | Inr cache \<Rightarrow>
                    (case server_serve w \<lparr>sv_session = s, sv_cache = cache\<rparr> addr of
                       Inl e \<Rightarrow> Returned (Some e)
                     | Inr sv \<Rightarrow> Serving sv (cdc_new (cdc_path c)) (cdc_poll_interval c)))))"

definition load_config_or_exit :: "('s, 'c, 'cell, 'l, 'df, 'u, 'w) world \<Rightarrow> igloo_error + config" where
  "load_config_or_exit w = load (w_env w) (w_exists w) (w_read w) (w_toml w)"

definition igloo_main :: "('s, 'c, 'cell, 'l, 'df, 'u, 'w) world \<Rightarrow> nat \<Rightarrow> nat \<Rightarrow> 's outcome \<times> string" where
  "igloo_main w now later =
     (let mode = (if 1 < length (w_args w) then Some (w_args w ! 1) else None)
      in if mode = Some ''crypto-demo''
         then (case run_crypto_demo (w_disk w) (w_mk_batch w) (w_floats w) (w_registry w) (w_parse_url w)
                      (w_listing w) (w_api w) (w_pretty w) (w_plain_context w) (w_disk_state w)
                      (unwrap_or (w_env w ''IGLOO_CRYPTO_PARQUET_PATH'') ''./crypto_ohlcv_data'') of
                 ((r, out), disk) \<Rightarrow> (Returned r, out))
         else (case load_config_or_exit w of
                 Inl e \<Rightarrow> (Exit 2 e, [])
               | Inr c \<Rightarrow> if mode = Some ''serve'' then (serve w c, []) else run_demo w c now later))"

subsection \<open>A start never aborts\<close>

lemma load_valid: "load_config_or_exit w = Inr c \<Longrightarrow> valid_config c"
  by (auto simp: load_config_or_exit_def load_def err_case from_sources_iff)

lemma valid_limits:
  "valid_config c \<Longrightarrow> \<exists>cache. cache_new (cache_max_entries c) (nanoseconds (cache_ttl c)) = Inr cache"
  by (auto simp: valid_config_def cache_new_def with_clock_def nanoseconds_def)

lemma valid_primary: "valid_config c \<Longrightarrow> primary_source c \<noteq> None"
  by (auto simp: valid_config_def primary_source_def split: list.splits)

lemma start_engine_safe:
  "registry_laws (w_registry w) ref tbl cat ctbl \<Longrightarrow> start_engine w c \<noteq> Inl (Panicked m)"
  unfolding start_engine_def engine_new_def by (rule engine_new_no_panic)

lemma run_demo_ends:
  assumes "registry_laws (w_registry w) ref tbl cat ctbl" and "valid_config c"
  shows "\<exists>r. fst (run_demo w c now later) = Returned r"
proof -
  obtain cache :: "batch list cache" where "cache_new (cache_max_entries c) (nanoseconds (cache_ttl c)) = Inr cache"
    using valid_limits [OF assms(2)] by blast
  with start_engine_safe [OF assms(1)] valid_primary [OF assms(2)] show ?thesis
    by (auto simp: run_demo_def split: sum.splits start_error.splits prod.splits option.splits)
qed

definition started_system :: "'s server \<Rightarrow> cdc_listener \<Rightarrow> fs \<Rightarrow> 's system" where
  "started_system sv l f =
     \<lparr>sys_server = sv, sys_tasks = [], sys_cdc = l, sys_fs = f, sys_past = [sv_session sv]\<rparr>"

lemma serve_ends:
  assumes "registry_laws (w_registry w) ref tbl cat ctbl" and "valid_config c"
  shows "case serve w c of
      Exit n e \<Rightarrow> n = 2 \<and> listen_addr c = None \<and> e = EConfig MissingListenAddr
    | Returned r \<Rightarrow> r \<noteq> None
    | Aborted m \<Rightarrow> False
    | Serving sv l p \<Rightarrow> listen_addr c \<noteq> None \<and> 0 < p \<and> sys_start (started_system sv l f)"
proof (cases "listen_addr c")
  case None
  then show ?thesis by (simp add: serve_def require_listen_addr_def)
next
  case (Some addr)
  obtain cache :: "batch list cache" where c: "cache_new (cache_max_entries c) (nanoseconds (cache_ttl c)) = Inr cache"
    using valid_limits [OF assms(2)] by blast
  have "sys_start (started_system \<lparr>sv_session = s, sv_cache = cache\<rparr> (cdc_new (cdc_path c)) f)" for s
    using c by (auto simp: sys_start_def started_system_def cache_new_def cdc_new_def)
  moreover have "0 < cdc_poll_interval c" using assms(2) by (simp add: valid_config_def)
  ultimately show ?thesis
    using Some c start_engine_safe [OF assms(1), of c]
    by (cases "w_bind w addr")
       (auto simp: serve_def server_serve_def require_listen_addr_def split: sum.splits start_error.splits)
qed

subsection \<open>Properties\<close>


text \<open>A world in which \<open>igloo serve\<close> comes up: the sample configuration with a listen address, and
  sources that have no tables.\<close>

definition serve_config :: config where
  "serve_config = sample_config\<lparr>listen_addr := Some ''127.0.0.1:5432''\<rparr>"

definition idle_session :: "((nat, nat) sample_session, string) session" where
  "idle_session =
     \<lparr>ctx_sql = (\<lambda>s q. (Inl ''no tables'', s)), df_collect = (\<lambda>s df. (Inr [], s)),
      df_with_params = (\<lambda>df ps. Inr df), df_schema = (\<lambda>df. []), parameter_names = (\<lambda>df. Inr []),
      parameter_types = (\<lambda>df. Inr [])\<rparr>"

definition idle_disk :: "unit disk" where
  "idle_disk = \<lparr>disk_view = (\<lambda>w. cdc_files []), create_dir_all = (\<lambda>w p. Inr ()), create_file = (\<lambda>w p. Inr ()),
     write_parquet = (\<lambda>w p s b. (Inr (), ()))\<rparr>"

definition idle_floats :: float_ops where
  "idle_floats = \<lparr>f_add = (+), f_sub = (-), f_mul = (*), f_div = (div), f_max = max, f_min = min,
     f_sin = (\<lambda>x. x), f_of_nat = of_nat\<rparr>"

definition sample_world ::
  "((nat, nat) sample_session, (nat, nat) sample_catalog, nat, nat, string, string, unit) world" where
  "sample_world =
     \<lparr>w_args = [''igloo'', ''serve''],
      w_env = Config_Spec.sample_env(''IGLOO_LISTEN_ADDR'' \<mapsto> ''127.0.0.1:5432''),
      w_exists = (\<lambda>p. p = ''igloo.toml''), w_read = (\<lambda>p. Inr []), w_toml = (\<lambda>raw. Inr sample_file),
      w_registry = sample_registry, w_parse_url = Inr, w_listing = (\<lambda>u sch. Inr 0),
      w_connect = (\<lambda>uri. Inr no_client), w_info = (\<lambda>cl schemas tables. Inr []),
      w_context = ([], []), w_plain_context = ([], []), w_api = idle_session, w_parser = (\<lambda>_. None),
      w_pretty = (\<lambda>bs. Inr []),
      w_adbc = \<lparr>adbc_execute = (\<lambda>uri sql. Inl ''no driver''), show_type = (\<lambda>t. []), debug_type = (\<lambda>t. [])\<rparr>,
      w_fs = cdc_files [], w_bind = (\<lambda>addr. Inr ()), w_disk = idle_disk, w_disk_state = (),
      w_mk_batch = (\<lambda>sch cols. Inl []), w_floats = idle_floats\<rparr>"

lemma sample_world_loads: "load_config_or_exit sample_world = Inr serve_config"
  by code_simp

lemma no_tables: "introspect_tables (\<lambda>schemas tables. Inr []) schemas tables =
    Inr ([], case tables of Some ts \<Rightarrow> ts | None \<Rightarrow> [])"
  by (simp add: introspect_tables_def group_columns_into_tables_def order_by_schema_priority_def
      warn_unmatched_allowlist_def split: option.splits)

lemma sample_world_engine: "\<exists>s. start_engine sample_world serve_config = Inr s"
  by (simp add: start_engine_def engine_new_def new_with_pushdown_def register_iceberg_table_def
      register_postgres_sources_def sample_world_def serve_config_def sample_config_def sample_registry_def
      connect_source_def no_tables hm_insert_def hm_remove_def resolve_aliases_def)


end
