(* ===== verification/Spec2Isabelle.thy ===== *)
theory Spec2Isabelle
  imports Cdc_Sync Float_Literals Config_Spec Wire_Spec Start_Spec Server_Spec Igloo_Main
begin

text \<open>
  Igloo, a caching query gateway in front of PostgreSQL and Parquet files, verified.

  \<^bold>\<open>The program.\<close> A client speaks the PostgreSQL wire protocol to \<open>src/server.rs\<close>. A statement that
  only reads is looked up in the result cache (\<open>src/cache_layer.rs\<close>) under a normalized form of its
  text; on a miss the engine (\<open>src/datafusion_engine.rs\<close>) plans and executes it with DataFusion, and
  the result is stored. The engine's tables are a directory of Parquet files and every base table
  of the configured PostgreSQL sources: \<open>src/catalog.rs\<close> introspects a source and resolves the names
  its tables get, and \<open>src/postgres_table.rs\<close> scans one table, sending the filters that
  \<open>src/pushdown.rs\<close> can translate and, when all could be, the limit. A poller (\<open>src/cdc_sync.rs\<close>)
  watches a directory for change events and clears the cache when it sees one. \<open>src/config.rs\<close> reads
  the settings, \<open>src/main.rs\<close> puts the parts together in three modes (server, demo query, crypto
  demo), \<open>src/crypto_metrics.rs\<close> is the self-contained demo and \<open>src/adbc_postgres.rs\<close> an example of
  a query over ADBC.

  \<^bold>\<open>Theories.\<close> For each part there is a theory with the definitions, one per Rust function and named
  like it, and one, named \<open>..._Spec\<close> or \<open>..._Sound\<close>, with what they promise.

  \<^item> \<open>Prelude\<close>, \<open>Rust_Str\<close>, \<open>Hash_Map\<close>, \<open>Rust_Float\<close>, \<open>Rust_Parse\<close>, \<open>Socket_Addr\<close>: the standard library the
    sources use. A \<open>Result\<close> is a sum with the error on the left, \<open>?\<close> is \<open>and_then\<close> and \<open>map_err\<close>. A
    Rust string is the list of its bytes, \<open>chars\<close> decodes UTF-8. A \<open>HashMap\<close> is the list of its
    entries in iteration order, behind the locale \<open>map_store\<close>. A float is its bit pattern.
  \<^item> \<open>Query_Key\<close>: \<open>normalize_query\<close> and the loop of \<open>normalize_lexical\<close>, with its equivalence to
    splitting into words outside quotes.
  \<^item> \<open>Cache_Layer\<close>: \<open>Cache\<close>, \<open>Inner\<close>, \<open>Entry\<close> as records; \<open>get\<close>, \<open>set\<close>, \<open>clear\<close>, \<open>len\<close>, \<open>stats\<close>. The clock
    is an argument, the tick and the counters are 64-bit words. \<open>Cache_Lru\<close> gives the abstract
    least-recently-used list and one simulation lemma per operation; \<open>Cache_Spec\<close> states the
    properties over whole histories and the locale \<open>result_cache\<close>, the contract the server relies
    on, which it interprets on the cache.
  \<^item> \<open>Cdc_Sync\<close>: \<open>CdcListener\<close>, \<open>read_new_local_events\<close>, \<open>sync\<close> and the polling loop over what each
    tick sees of the file system.
  \<^item> \<open>Arrow_Types\<close>: the data the parts exchange, and \<open>IglooError\<close> of \<open>src/errors.rs\<close>.
  \<^item> \<open>Sql_Lex\<close>, \<open>Sql_Quote\<close>: PostgreSQL's lexical rules as a reference, the locale \<open>sql_printer\<close> of
    printers whose output is read back as intended, and the quoting functions.
  \<^item> \<open>Pushdown\<close>, \<open>Pushdown_Spec\<close>, \<open>Pushdown_Sound\<close>: \<open>translate_filter\<close> and its helpers; the grammar of
    what is pushed, how PostgreSQL reads it, and that it means what DataFusion would compute.
    \<open>Float_Read\<close> shows that a displayed float reads back as itself, \<open>Float_Literals\<close> that therefore a
    pushed float literal is exact.
  \<^item> \<open>Postgres_Table\<close>, \<open>Scan_Spec\<close>: \<open>PostgresTable\<close>, its classification of filters and \<open>scan\<close>, from
    the statement to the decoded arrays; the structure of the statement, the transparency of
    pushdown, the type of the result.
  \<^item> \<open>Catalog\<close>, \<open>Catalog_Spec\<close>: type mapping, grouping, ordering, allowlist and alias resolution.
    \<open>Introspect\<close> models the text of \<open>INTROSPECT_SQL\<close> as a function of PostgreSQL's
    \<open>information_schema\<close> and shows that introspection finds exactly the tables it is asked for.
  \<^item> \<open>Config\<close>, \<open>Config_Spec\<close>: \<open>Config::load\<close> and everything below it; which configurations load, and
    that connection strings stay out of every message.
  \<^item> \<open>Wire\<close>, \<open>Wire_Spec\<close>: type mappings and decoding of bound parameters.
  \<^item> \<open>Engine\<close>, \<open>Engine_Spec\<close>: start-up registration, \<open>query\<close>, \<open>query_with_params\<close>, \<open>describe_query\<close>; the
    premise \<open>registry_laws\<close> lists what the registration uses of DataFusion's catalogs. \<open>Start_Spec\<close>
    composes them with \<open>Introspect\<close>: the catalog of a source offers exactly what its database and its
    configuration ask for.
  \<^item> \<open>Server\<close>, \<open>Server_Spec\<close>: row encoding, the handlers of both query protocols and of
    \<open>Describe\<close>, and the accept loop; that the cache is invisible while the data stands still.
  \<^item> \<open>System\<close>, \<open>System_Spec\<close>: simple queries, portals with and without parameters, the poller and
    changes of the data interleaved at the points where the code awaits, as the step relation
    \<open>sys_step\<close>. What holds in every reachable state, when answers are fresh and the interleaving in
    which they are not, that no request waits on another, and that the handlers' work ends: the
    steps that work on a request are counted by \<open>size\<close>, the work left in the state.
  \<^item> \<open>Adbc\<close>, \<open>Crypto\<close>, \<open>Igloo_Main\<close>: the example, the demo with the shape of its sample data, and
    \<open>main\<close> with its three modes, whose start is shown never to abort.

  \<^bold>\<open>Parameters.\<close> What is not in the repository is an argument: sqlparser's parser and printer, the
  clock, the environment, the file system and the TOML reader, the PostgreSQL connection and its
  rows, DataFusion's session, catalogs and listing tables, the wire library's row encoder, the
  binary decoders of \<open>postgres_types\<close>, chrono's parsers, the ADBC driver, Parquet's writer, the
  arithmetic and \<open>sin\<close> of \<open>f64\<close> in the sample data. Laws about them are premises of the theorems that
  need them, each with a witness on a concrete instance.

  \<^bold>\<open>Bounds and fuel.\<close> The refinement of the cache assumes fewer than \<open>2 ^ 64\<close> calls, the point at which
  its tick wraps; the properties about freshness do not. Displaying a float runs its scaling loops
  with fuel 400, more than the decimal exponent of any \<open>f64\<close>, and its digit loop with 17, the digits
  that tell every \<open>f64\<close> apart; \<open>f32\<close> needs less. Reading a float runs the search for its exponent with
  fuel four times the digits and the exponent, which exceeds the logarithm of the value. \<open>Float_Read\<close>
  proves for \<open>f64\<close> that none of these runs out. All other recursions are structural or have a measure.

  \<^bold>\<open>Not modelled.\<close> Log lines; the bytes on the sockets, the startup handshake and the handler
  factory of \<open>src/server.rs\<close>, which hand requests to the handlers; the background task of a
  PostgreSQL connection; sharing of one provider by its names, for a provider is a value here and
  its counters are returned by \<open>scan\<close>; that collecting a scan may be lazy. In \<open>System\<close> the engine's
  work for one call is one step, and whatever else changes the session, a \<open>Describe\<close> included, is
  among the changes of the data. \<open>src/lib.rs\<close> only declares the modules.
\<close>

end
